theory Spec2Isabelle
  imports Complex_Main "HOL-Library.Word"
begin

section \<open>Solidity values and checked arithmetic\<close>

text \<open>
  The contracts are compiled with \<open>pragma solidity ^0.8.0\<close>: \<open>uint\<close> is a 256-bit
  unsigned integer and \<open>+\<close>, \<open>*\<close> revert the transaction (a panic) when the result does
  not fit; division by zero and an array index out of range panic as well. A \<open>uint\<close> is
  modelled as a natural number, every arithmetic operation of the source as a checked
  operation that returns the error in \<open>Inl\<close>. A \<open>require\<close> that fails is
  \<open>Revert\<close> with the message of the source.
\<close>

type_synonym address = "160 word"
type_synonym byte = "8 word"
type_synonym uint = nat

datatype error = Panic_Overflow | Panic_DivZero | Panic_Index | Revert string

definition UINT_MAX :: nat where
  "UINT_MAX = 2 ^ 256 - 1"

definition checked_add :: "uint \<Rightarrow> uint \<Rightarrow> error + uint" where
  "checked_add a b = (if a + b \<le> UINT_MAX then Inr (a + b) else Inl Panic_Overflow)"

definition checked_mul :: "uint \<Rightarrow> uint \<Rightarrow> error + uint" where
  "checked_mul a b = (if a * b \<le> UINT_MAX then Inr (a * b) else Inl Panic_Overflow)"

definition checked_div :: "uint \<Rightarrow> uint \<Rightarrow> error + uint" where
  "checked_div a b = (if b = 0 then Inl Panic_DivZero else Inr (a div b))"

definition checked_mod :: "uint \<Rightarrow> uint \<Rightarrow> error + uint" where
  "checked_mod a b = (if b = 0 then Inl Panic_DivZero else Inr (a mod b))"

definition bind_result :: "error + 'a \<Rightarrow> ('a \<Rightarrow> error + 'b) \<Rightarrow> error + 'b" where
  "bind_result m f = (case m of Inl e \<Rightarrow> Inl e | Inr v \<Rightarrow> f v)"

text \<open>
  A transaction that reverts leaves the storage of the contract as it was; one that
  returns commits the storage it computed.
\<close>

definition commit :: "'s \<Rightarrow> error + ('s \<times> 'ev list) \<Rightarrow> 's" where
  "commit s r = (case r of Inl e \<Rightarrow> s | Inr (s', evs) \<Rightarrow> s')"

definition emitted :: "error + ('s \<times> 'ev list) \<Rightarrow> 'ev list" where
  "emitted r = (case r of Inl e \<Rightarrow> [] | Inr (s', evs) \<Rightarrow> evs)"

section \<open>StatusReportingContract\<close>

record report_state =
  operatorUserRates :: "address \<Rightarrow> address \<Rightarrow> uint list"
  latestOperatorUserRate :: "address \<Rightarrow> address \<Rightarrow> uint"

text \<open>Storage of a freshly deployed contract: every mapping entry is zero or empty.\<close>

definition init_report_state :: report_state where
  "init_report_state =
     \<lparr>operatorUserRates = (\<lambda>user operator. []),
      latestOperatorUserRate = (\<lambda>user operator. 0)\<rparr>"

datatype report_event = ReportSubmitted address address uint uint

definition validCSI :: "byte list \<Rightarrow> bool" where
  "validCSI csi = (length csi > 0)"

text \<open>
  The loop \<open>for (uint i = 0; i < 8; i++) snrScaled = snrScaled * 256 + uint8(csi[i])\<close>.
\<close>

function snr_loop :: "byte list \<Rightarrow> nat \<Rightarrow> uint \<Rightarrow> error + uint" where
  "snr_loop csi i snrScaled =
     (if i < 8 then
        (if i < length csi then
           bind_result (checked_mul snrScaled 256) (\<lambda>m.
           bind_result (checked_add m (unat (csi ! i))) (\<lambda>a.
           snr_loop csi (i + 1) a))
         else Inl Panic_Index)
      else Inr snrScaled)"
  by pat_completeness auto
termination
  by (relation "measure (\<lambda>(csi, i, snrScaled). 8 - i)") auto

declare snr_loop.simps [simp del]

definition rateEstimation :: "byte list \<Rightarrow> error + uint" where
  "rateEstimation csi =
     (if \<not> (length csi \<ge> 8) then Inl (Revert ''Invalid CSI data'')
      else
        bind_result (snr_loop csi 0 0) (\<lambda>snr0.
        let snrScaled = (if snr0 = 0 then 1000000 else snr0);
            bandwidth = 1000;
            log2 = 693
        in
        bind_result (checked_mul log2 1000) (\<lambda>denom.
        bind_result (checked_mul bandwidth snrScaled) (\<lambda>numer.
        bind_result (checked_div denom 2) (\<lambda>half.
        bind_result (checked_add numer half) (\<lambda>rounded.
        checked_div rounded denom))))))"

text \<open>
  \<open>submitReport\<close>, with \<open>block.timestamp\<close> as the argument \<open>now\<close>. The result is
  the new storage and the events emitted, or the error that reverts the call.
\<close>

definition submitReport ::
  "uint \<Rightarrow> report_state \<Rightarrow> address \<Rightarrow> address \<Rightarrow> byte list
     \<Rightarrow> error + (report_state \<times> report_event list)" where
  "submitReport now s user operator csi =
     (if \<not> validCSI csi then Inl (Revert ''Invalid CSI data'')
      else
        bind_result (rateEstimation csi) (\<lambda>rate.
        let s1 = s\<lparr>operatorUserRates := (operatorUserRates s)
                     (user := (operatorUserRates s user)
                        (operator := operatorUserRates s user operator @ [rate]))\<rparr>;
            s2 = s1\<lparr>latestOperatorUserRate := (latestOperatorUserRate s1)
                     (user := (latestOperatorUserRate s1 user) (operator := rate))\<rparr>
        in Inr (s2, [ReportSubmitted user operator now rate])))"

definition getLatestRate :: "report_state \<Rightarrow> address \<Rightarrow> address \<Rightarrow> uint" where
  "getLatestRate s user operator = latestOperatorUserRate s user operator"

text \<open>
  A sequence of \<open>submitReport\<close> transactions \<open>(now, user, operator, csi)\<close>, each applied
  to the storage the one before left.
\<close>

fun submit_all ::
  "report_state \<Rightarrow> (uint \<times> address \<times> address \<times> byte list) list \<Rightarrow> report_state" where
  "submit_all s [] = s"
| "submit_all s ((now, user, operator, csi) # rest) =
     submit_all (commit s (submitReport now s user operator csi)) rest"

subsection \<open>Reference notions for the reporting claims\<close>

text \<open>The unsigned integer a byte string denotes, most significant byte first.\<close>

fun be_uint :: "byte list \<Rightarrow> nat" where
  "be_uint [] = 0"
| "be_uint (b # bs) = unat b * 256 ^ length bs + be_uint bs"

text \<open>
  The rates of the successful submissions for the pair \<open>(user, operator)\<close>, in the
  order of submission.
\<close>

fun pair_rates ::
  "address \<Rightarrow> address \<Rightarrow> (uint \<times> address \<times> address \<times> byte list) list \<Rightarrow> uint list" where
  "pair_rates user operator [] = []"
| "pair_rates user operator ((now, u, k, csi) # rest) =
     (if u = user \<and> k = operator \<and> validCSI csi
      then (case rateEstimation csi of Inl e \<Rightarrow> [] | Inr rate \<Rightarrow> [rate])
      else [])
     @ pair_rates user operator rest"

section \<open>SchedulingContract\<close>

text \<open>
  The storage of the contract. The arrays \<open>users\<close> and \<open>operators\<close> of the source are
  declared and never written or read by any function, so they are left out.
\<close>

record sched_state =
  selectedUser :: "address \<Rightarrow> address"
  throughput :: "address \<Rightarrow> uint"
  throughputRemainder :: "address \<Rightarrow> uint"
  schedulingMatrix :: "address \<Rightarrow> address \<Rightarrow> bool"
  allocatedRate :: "address \<Rightarrow> address \<Rightarrow> uint"
  serviceDuration :: "address \<Rightarrow> address \<Rightarrow> uint"
  statusReportingContract :: address
  registrationContract :: address

definition init_sched_state :: sched_state where
  "init_sched_state =
     \<lparr>selectedUser = (\<lambda>operator. 0),
      throughput = (\<lambda>user. 0),
      throughputRemainder = (\<lambda>user. 0),
      schedulingMatrix = (\<lambda>user operator. False),
      allocatedRate = (\<lambda>user operator. 0),
      serviceDuration = (\<lambda>user operator. 0),
      statusReportingContract = 0,
      registrationContract = 0\<rparr>"

datatype sched_event = Scheduled "address list" "address list"

definition alpha :: uint where
  "alpha = 10000"

definition PRECISION :: uint where
  "PRECISION = 100000000"

definition setStatusReportingContract :: "sched_state \<Rightarrow> address \<Rightarrow> sched_state" where
  "setStatusReportingContract s a = s\<lparr>statusReportingContract := a\<rparr>"

definition setRegistrationContract :: "sched_state \<Rightarrow> address \<Rightarrow> sched_state" where
  "setRegistrationContract s a = s\<lparr>registrationContract := a\<rparr>"

text \<open>
  The internal \<open>getLatestRate\<close> of the scheduling contract: the \<open>require\<close> on the
  configured address, then the call to the status reporting contract, whose storage is
  \<open>rs\<close>.
\<close>

definition sched_getLatestRate ::
  "sched_state \<Rightarrow> report_state \<Rightarrow> address \<Rightarrow> address \<Rightarrow> error + uint" where
  "sched_getLatestRate s rs user operator =
     (if statusReportingContract s = 0 then Inl (Revert ''StatusReportingContract not set'')
      else Inr (getLatestRate rs user operator))"

text \<open>The priority of a candidate (lines 88 to 95 of the source).\<close>

definition compute_priority :: "uint \<Rightarrow> uint \<Rightarrow> error + uint" where
  "compute_priority latestRate tp =
     (if tp > 0 then
        bind_result (checked_mul latestRate 1000000000) (\<lambda>scaled. checked_div scaled tp)
      else checked_mul latestRate 100000000)"

text \<open>
  The inner loop over \<open>currentUsers\<close>: the storage (where \<open>selectedUser[op]\<close> is
  written) and the locals \<open>bestLatestRate\<close> and \<open>maxPriority\<close> are threaded through.
\<close>

fun select_loop ::
  "report_state \<Rightarrow> address \<Rightarrow> address list \<Rightarrow> sched_state \<times> uint \<times> uint
     \<Rightarrow> error + (sched_state \<times> uint \<times> uint)" where
  "select_loop rs op [] acc = Inr acc"
| "select_loop rs op (u # us) (s, bestLatestRate, maxPriority) =
     bind_result (sched_getLatestRate s rs u op) (\<lambda>latestRate.
     bind_result (compute_priority latestRate (throughput s u)) (\<lambda>priority.
       if priority > maxPriority
       then select_loop rs op us
              (s\<lparr>selectedUser := (selectedUser s) (op := u)\<rparr>, latestRate, priority)
       else select_loop rs op us (s, bestLatestRate, maxPriority)))"

text \<open>
  The body of the outer loop for one operator, in its three parts: the clearing of the
  previous selection (lines 71 to 81), the inner loop, and the recording of the new
  selection (lines 105 to 110). \<open>now\<close> is \<open>block.timestamp\<close> and \<open>keccak now op\<close>
  stands for \<open>uint(keccak256(abi.encodePacked(block.timestamp, op)))\<close>; the hash
  function is a parameter of the model.
\<close>

definition clear_selection :: "sched_state \<Rightarrow> address \<Rightarrow> sched_state" where
  "clear_selection s op =
     (let prev = selectedUser s op;
          s1 = (if prev \<noteq> 0 then
                  s\<lparr>schedulingMatrix := (schedulingMatrix s)
                        (prev := (schedulingMatrix s prev) (op := False)),
                    allocatedRate := (allocatedRate s)
                        (prev := (allocatedRate s prev) (op := 0))\<rparr>
                else s)
      in s1\<lparr>selectedUser := (selectedUser s1) (op := 0)\<rparr>)"

definition mark_selection ::
  "uint \<Rightarrow> (uint \<Rightarrow> address \<Rightarrow> uint) \<Rightarrow> sched_state \<Rightarrow> address \<Rightarrow> uint
     \<Rightarrow> error + sched_state" where
  "mark_selection now keccak s op bestLatestRate =
     (if selectedUser s op \<noteq> 0 then
        bind_result (checked_mod (keccak now op) 16) (\<lambda>r.
        bind_result (checked_add 35 r) (\<lambda>duration.
        let sel = selectedUser s op in
        Inr (s\<lparr>schedulingMatrix := (schedulingMatrix s)
                   (sel := (schedulingMatrix s sel) (op := True)),
                allocatedRate := (allocatedRate s)
                   (sel := (allocatedRate s sel) (op := bestLatestRate)),
                serviceDuration := (serviceDuration s)
                   (sel := (serviceDuration s sel) (op := duration))\<rparr>)))
      else Inr s)"

definition schedule_operator ::
  "report_state \<Rightarrow> uint \<Rightarrow> (uint \<Rightarrow> address \<Rightarrow> uint) \<Rightarrow> address list
     \<Rightarrow> sched_state \<Rightarrow> address \<Rightarrow> error + sched_state" where
  "schedule_operator rs now keccak currentUsers s op =
     bind_result (select_loop rs op currentUsers (clear_selection s op, 0, 0))
       (\<lambda>(s3, bestLatestRate, maxPriority). mark_selection now keccak s3 op bestLatestRate)"

fun select_all ::
  "report_state \<Rightarrow> uint \<Rightarrow> (uint \<Rightarrow> address \<Rightarrow> uint) \<Rightarrow> address list \<Rightarrow> address list
     \<Rightarrow> sched_state \<Rightarrow> error + sched_state" where
  "select_all rs now keccak currentUsers [] s = Inr s"
| "select_all rs now keccak currentUsers (op # ops) s =
     bind_result (schedule_operator rs now keccak currentUsers s op)
       (select_all rs now keccak currentUsers ops)"

text \<open>The inner loop of the throughput update: \<open>totalAllocated\<close> of one user.\<close>

fun total_allocated :: "sched_state \<Rightarrow> address \<Rightarrow> address list \<Rightarrow> uint \<Rightarrow> error + uint" where
  "total_allocated s user [] totalAllocated = Inr totalAllocated"
| "total_allocated s user (op # ops) totalAllocated =
     (if schedulingMatrix s user op then
        bind_result (checked_add totalAllocated (allocatedRate s user op))
          (total_allocated s user ops)
      else total_allocated s user ops totalAllocated)"

text \<open>
  The arithmetic of the throughput update (lines 126 to 128) on the pair
  \<open>(oldThroughput, remainder)\<close>.
\<close>

definition throughput_step :: "uint \<times> uint \<Rightarrow> uint \<Rightarrow> error + (uint \<times> uint)" where
  "throughput_step tr totalAllocated =
     (case tr of (oldThroughput, remainder) \<Rightarrow>
        bind_result (checked_mul (alpha - 1) oldThroughput) (\<lambda>a.
        bind_result (checked_mul totalAllocated 100000000) (\<lambda>b.
        bind_result (checked_add a b) (\<lambda>c.
        bind_result (checked_add c remainder) (\<lambda>numerator.
        bind_result (checked_div numerator alpha) (\<lambda>newThroughput.
        bind_result (checked_mod numerator alpha) (\<lambda>newRemainder.
        Inr (newThroughput, newRemainder))))))))"

fun update_throughputs ::
  "address list \<Rightarrow> address list \<Rightarrow> sched_state \<Rightarrow> error + sched_state" where
  "update_throughputs [] currentOperators s = Inr s"
| "update_throughputs (u # us) currentOperators s =
     bind_result (total_allocated s u currentOperators 0) (\<lambda>totalAllocated.
     bind_result (throughput_step (throughput s u, throughputRemainder s u) totalAllocated)
       (\<lambda>(newThroughput, newRemainder).
          update_throughputs us currentOperators
            (s\<lparr>throughput := (throughput s) (u := newThroughput),
               throughputRemainder := (throughputRemainder s) (u := newRemainder)\<rparr>)))"

definition getSelectedUsers :: "sched_state \<Rightarrow> address list \<Rightarrow> address list" where
  "getSelectedUsers s operatorList = map (selectedUser s) operatorList"

text \<open>
  \<open>updateScheduling\<close>. The lists \<open>currentUsers\<close> and \<open>currentOperators\<close> are what
  \<open>getAllUsers()\<close> and \<open>getAllOperators()\<close> of the registration contract return.
\<close>

definition updateScheduling ::
  "report_state \<Rightarrow> uint \<Rightarrow> (uint \<Rightarrow> address \<Rightarrow> uint) \<Rightarrow> address list \<Rightarrow> address list
     \<Rightarrow> sched_state \<Rightarrow> error + (sched_state \<times> sched_event list)" where
  "updateScheduling rs now keccak currentUsers currentOperators s =
     bind_result (select_all rs now keccak currentUsers currentOperators s) (\<lambda>s1.
     bind_result (update_throughputs currentUsers currentOperators s1) (\<lambda>s2.
     Inr (s2, [Scheduled currentOperators (getSelectedUsers s2 currentOperators)])))"

definition getServiceDuration :: "sched_state \<Rightarrow> address \<Rightarrow> address \<Rightarrow> uint" where
  "getServiceDuration s user operator = serviceDuration s user operator"

definition getSchedulingMatrix :: "sched_state \<Rightarrow> address \<Rightarrow> address \<Rightarrow> bool" where
  "getSchedulingMatrix s user operator = schedulingMatrix s user operator"

text \<open>The throughput update applied in \<open>K\<close> successive rounds with the same total.\<close>

fun iterate_update :: "nat \<Rightarrow> uint \<Rightarrow> uint \<times> uint \<Rightarrow> error + (uint \<times> uint)" where
  "iterate_update 0 X tr = Inr tr"
| "iterate_update (Suc k) X tr = bind_result (throughput_step tr X) (iterate_update k X)"

subsection \<open>Reference notions for the scheduling claims\<close>

text \<open>
  The priority of \<open>user\<close> at \<open>operator\<close> as the specification gives it, on unbounded
  integers.
\<close>

definition priority :: "sched_state \<Rightarrow> report_state \<Rightarrow> address \<Rightarrow> address \<Rightarrow> nat" where
  "priority s rs user operator =
     (if throughput s user > 0
      then (getLatestRate rs user operator * 1000000000) div throughput s user
      else getLatestRate rs user operator * 100000000)"

text \<open>
  \<open>w\<close> is the first element of \<open>users\<close> at which \<open>f\<close> is maximal, and the maximum is
  positive: no element has a greater value, and every element scanned before the first
  occurrence of \<open>w\<close> has a strictly smaller one.
\<close>

definition first_maximum :: "(address \<Rightarrow> nat) \<Rightarrow> address list \<Rightarrow> address \<Rightarrow> bool" where
  "first_maximum f users w =
     (w \<in> set users \<and> 0 < f w \<and> (\<forall>v \<in> set users. f v \<le> f w)
      \<and> (\<forall>v \<in> set (takeWhile (\<lambda>v. v \<noteq> w) users). f v < f w))"

text \<open>
  The exact exponentially weighted moving average over the rationals: the new sample has
  weight \<open>1 / alpha\<close>, the history \<open>(alpha - 1) / alpha\<close>; and its value in fixed point
  with \<open>PRECISION\<close>, floored once.
\<close>

fun ewma :: "nat \<Rightarrow> nat \<Rightarrow> rat" where
  "ewma X 0 = 0"
| "ewma X (Suc k) = ((of_nat alpha - 1) * ewma X k + of_nat X) / of_nat alpha"

definition ewma_fixed :: "nat \<Rightarrow> nat \<Rightarrow> int" where
  "ewma_fixed X K = \<lfloor>of_nat PRECISION * ewma X K\<rfloor>"

text \<open>
  The selection invariant: a pair is marked in the scheduling matrix only if the user is
  the recorded selected user of the operator, and the zero address is never marked.
\<close>

definition selection_consistent :: "sched_state \<Rightarrow> bool" where
  "selection_consistent s =
     (\<forall>user operator. schedulingMatrix s user operator \<longrightarrow>
        user \<noteq> 0 \<and> selectedUser s operator = user)"

text \<open>
  What the selection of one operator \<open>op\<close> has to be after a round that started in
  \<open>s\<close> and ended in \<open>s'\<close>.
\<close>

definition selection_result ::
  "sched_state \<Rightarrow> report_state \<Rightarrow> address list \<Rightarrow> address \<Rightarrow> sched_state \<Rightarrow> bool" where
  "selection_result s rs users op s' =
     ((selectedUser s' op = 0 \<and> (\<forall>v \<in> set users. priority s rs v op = 0))
      \<or> (first_maximum (\<lambda>u. priority s rs u op) users (selectedUser s' op)
          \<and> (selectedUser s' op \<noteq> 0 \<longrightarrow>
                allocatedRate s' (selectedUser s' op) op
                  = getLatestRate rs (selectedUser s' op) op
                \<and> schedulingMatrix s' (selectedUser s' op) op)))"

section \<open>SettlementContract\<close>

text \<open>
  The storage of the contract. The field \<open>registrationContract\<close> of the source is
  \<open>settlementRegistrationContract\<close> here, the scheduling contract having a field of the
  same name.
\<close>

record settle_state =
  schedulingContract :: address
  settlementRegistrationContract :: address
  operatorRates :: "address \<Rightarrow> uint"

definition init_settle_state :: settle_state where
  "init_settle_state =
     \<lparr>schedulingContract = 0, settlementRegistrationContract = 0,
      operatorRates = (\<lambda>operator. 0)\<rparr>"

definition setSchedulingContract :: "settle_state \<Rightarrow> address \<Rightarrow> settle_state" where
  "setSchedulingContract st a = st\<lparr>schedulingContract := a\<rparr>"

definition settle_setRegistrationContract :: "settle_state \<Rightarrow> address \<Rightarrow> settle_state" where
  "settle_setRegistrationContract st a = st\<lparr>settlementRegistrationContract := a\<rparr>"

definition setOperatorRate :: "settle_state \<Rightarrow> address \<Rightarrow> uint \<Rightarrow> settle_state" where
  "setOperatorRate st operator rate =
     st\<lparr>operatorRates := (operatorRates st) (operator := rate)\<rparr>"

datatype settle_event =
  PaymentProcessed address address uint
| ServiceNotified address address uint uint

text \<open>
  The internal \<open>getSchedulingMatrix\<close> of the settlement contract; \<open>sch\<close> is the storage
  of the scheduling contract it calls.
\<close>

definition settle_getSchedulingMatrix ::
  "settle_state \<Rightarrow> sched_state \<Rightarrow> address \<Rightarrow> address \<Rightarrow> error + bool" where
  "settle_getSchedulingMatrix st sch user operator =
     (if schedulingContract st = 0 then Inl (Revert ''SchedulingContract not set'')
      else Inr (getSchedulingMatrix sch user operator))"

definition getServiceParameters ::
  "settle_state \<Rightarrow> sched_state \<Rightarrow> address \<Rightarrow> address \<Rightarrow> uint \<times> uint" where
  "getServiceParameters st sch user operator =
     (let duration0 = (if schedulingContract st \<noteq> 0
                       then getServiceDuration sch user operator else 0);
          duration = (if duration0 = 0 then 50 else duration0);
          bandwidth = 1000
      in (duration, bandwidth))"

definition calculateCost :: "settle_state \<Rightarrow> address \<Rightarrow> uint \<Rightarrow> uint \<Rightarrow> error + uint" where
  "calculateCost st operator duration bandwidth =
     (let rate0 = operatorRates st operator;
          rate = (if rate0 = 0 then 87 else rate0)
      in bind_result (checked_mul rate duration) (\<lambda>x. checked_mul x bandwidth))"

text \<open>\<open>processPayment\<close> has an empty body in the source.\<close>

definition settleService ::
  "settle_state \<Rightarrow> address \<Rightarrow> address \<Rightarrow> uint \<Rightarrow> uint \<Rightarrow> error + settle_event list" where
  "settleService st user operator duration bandwidth =
     bind_result (calculateCost st operator duration bandwidth) (\<lambda>cost.
     Inr [PaymentProcessed user operator cost])"

definition notify :: "address \<Rightarrow> address \<Rightarrow> uint \<Rightarrow> uint \<Rightarrow> settle_event list" where
  "notify user operator duration bandwidth = [ServiceNotified user operator duration bandwidth]"

fun settle_operators ::
  "settle_state \<Rightarrow> sched_state \<Rightarrow> address \<Rightarrow> address list \<Rightarrow> error + settle_event list" where
  "settle_operators st sch user [] = Inr []"
| "settle_operators st sch user (op # ops) =
     bind_result (settle_getSchedulingMatrix st sch user op) (\<lambda>scheduled.
       if scheduled then
         (case getServiceParameters st sch user op of (duration, bandwidth) \<Rightarrow>
            bind_result (settleService st user op duration bandwidth) (\<lambda>paid.
            bind_result (settle_operators st sch user ops) (\<lambda>rest.
            Inr (notify user op duration bandwidth @ paid @ rest))))
       else settle_operators st sch user ops)"

fun settle_users ::
  "settle_state \<Rightarrow> sched_state \<Rightarrow> address list \<Rightarrow> address list \<Rightarrow> error + settle_event list" where
  "settle_users st sch [] currentOperators = Inr []"
| "settle_users st sch (u # us) currentOperators =
     bind_result (settle_operators st sch u currentOperators) (\<lambda>evs.
     bind_result (settle_users st sch us currentOperators) (\<lambda>rest.
     Inr (evs @ rest)))"

text \<open>
  \<open>processScheduledTransactions\<close> writes no storage: the result is the list of events
  in the order of emission, or the error that reverts the call.
\<close>

definition processScheduledTransactions ::
  "settle_state \<Rightarrow> sched_state \<Rightarrow> address list \<Rightarrow> address list \<Rightarrow> error + settle_event list" where
  "processScheduledTransactions st sch currentUsers currentOperators =
     settle_users st sch currentUsers currentOperators"

subsection \<open>Reference notions for the settlement claim\<close>

definition duration_of :: "sched_state \<Rightarrow> address \<Rightarrow> address \<Rightarrow> nat" where
  "duration_of sch user operator =
     (if serviceDuration sch user operator = 0 then 50 else serviceDuration sch user operator)"

definition rate_of :: "settle_state \<Rightarrow> address \<Rightarrow> nat" where
  "rate_of st operator = (if operatorRates st operator = 0 then 87 else operatorRates st operator)"

text \<open>The two events the specification asks for a selected pair, and none otherwise.\<close>

definition pair_events ::
  "settle_state \<Rightarrow> sched_state \<Rightarrow> address \<Rightarrow> address \<Rightarrow> settle_event list" where
  "pair_events st sch user operator =
     (if schedulingMatrix sch user operator then
        [ServiceNotified user operator (duration_of sch user operator) 1000,
         PaymentProcessed user operator
           (rate_of st operator * duration_of sch user operator * 1000)]
      else [])"

fun event_pair :: "settle_event \<Rightarrow> address \<times> address" where
  "event_pair (PaymentProcessed user operator cost) = (user, operator)"
| "event_pair (ServiceNotified user operator duration bandwidth) = (user, operator)"

section \<open>RegistrationContract\<close>

text \<open>The struct \<open>Info\<close>: its fields \<open>id\<close> and \<open>isOperator\<close>.\<close>

record Info =
  info_id :: uint
  info_isOperator :: bool

record reg_state =
  nextOpId :: uint
  nextUserId :: uint
  registry :: "address \<Rightarrow> Info"
  allUsers :: "address list"
  allOperators :: "address list"

definition init_reg_state :: reg_state where
  "init_reg_state =
     \<lparr>nextOpId = 1, nextUserId = 1, registry = (\<lambda>a. \<lparr>info_id = 0, info_isOperator = False\<rparr>),
      allUsers = [], allOperators = []\<rparr>"

datatype reg_event = RegistrationSuccess address uint bool

definition validProof :: "byte list \<Rightarrow> bool \<Rightarrow> bool" where
  "validProof proof isOperator = (if isOperator then length proof \<ge> 10 else length proof \<ge> 5)"

definition register ::
  "reg_state \<Rightarrow> address \<Rightarrow> byte list \<Rightarrow> bool \<Rightarrow> error + (reg_state \<times> reg_event list)" where
  "register s user proof isOperator =
     (if \<not> validProof proof isOperator then Inl (Revert ''Invalid credentials'')
      else if info_id (registry s user) \<noteq> 0 then Inl (Revert ''User already registered'')
      else if isOperator then
        bind_result (checked_add (nextOpId s) 1) (\<lambda>next.
        let s1 = s\<lparr>nextOpId := next, registry := (registry s)
                     (user := \<lparr>info_id = nextOpId s, info_isOperator = True\<rparr>)\<rparr>;
            s2 = s1\<lparr>allOperators := allOperators s1 @ [user]\<rparr>
        in Inr (s2, [RegistrationSuccess user (info_id (registry s2 user)) isOperator]))
      else
        bind_result (checked_add (nextUserId s) 1) (\<lambda>next.
        let s1 = s\<lparr>nextUserId := next, registry := (registry s)
                     (user := \<lparr>info_id = nextUserId s, info_isOperator = False\<rparr>)\<rparr>;
            s2 = s1\<lparr>allUsers := allUsers s1 @ [user]\<rparr>
        in Inr (s2, [RegistrationSuccess user (info_id (registry s2 user)) isOperator])))"

definition isRegistered :: "reg_state \<Rightarrow> address \<Rightarrow> bool" where
  "isRegistered s user = (info_id (registry s user) \<noteq> 0)"

definition getAllUsers :: "reg_state \<Rightarrow> address list" where
  "getAllUsers s = allUsers s"

definition getAllOperators :: "reg_state \<Rightarrow> address list" where
  "getAllOperators s = allOperators s"

text \<open>A sequence of \<open>register\<close> transactions \<open>(user, proof, isOperator)\<close>.\<close>

fun register_all :: "reg_state \<Rightarrow> (address \<times> byte list \<times> bool) list \<Rightarrow> reg_state" where
  "register_all s [] = s"
| "register_all s ((user, proof, isOperator) # rest) =
     register_all (commit s (register s user proof isOperator)) rest"

text \<open>
  The registration invariant: no address is listed twice, as a user or as an operator,
  and every listed address has a non-zero id.
\<close>

definition registration_consistent :: "reg_state \<Rightarrow> bool" where
  "registration_consistent s =
     (distinct (allUsers s) \<and> distinct (allOperators s)
      \<and> set (allUsers s) \<inter> set (allOperators s) = {}
      \<and> (\<forall>a \<in> set (allUsers s) \<union> set (allOperators s). info_id (registry s a) \<noteq> 0)
      \<and> nextOpId s \<noteq> 0 \<and> nextUserId s \<noteq> 0)"

section \<open>Example states\<close>

text \<open>
  Five report submissions to a fresh status reporting contract: at operator 9 the rates
  of users 1, 2, 3 are 14430, 28860, 28860; at operator 10 user 1 has rate 1443, user 3
  rate 14430 and user 2 never reported. \<open>example_round\<close> is the first scheduling round
  on a fresh scheduling contract whose status reporting address is set;
  \<open>example_second_round\<close> and \<open>example_idle_round\<close> are two possible next rounds, the
  second with an empty operator list. \<open>example_drained\<close> is a storage in which every
  throughput is 0 and every remainder 9999.
\<close>

definition example_reports :: report_state where
  "example_reports = submit_all init_report_state
     [(100, 1, 9, [0, 0, 0, 0, 0, 0x98, 0x96, 0x80]),
      (100, 2, 9, [0, 0, 0, 0, 0x01, 0x31, 0x2D, 0x00]),
      (100, 3, 9, [0, 0, 0, 0, 0x01, 0x31, 0x2D, 0x00]),
      (100, 1, 10, [0, 0, 0, 0, 0, 0, 0, 0]),
      (100, 3, 10, [0, 0, 0, 0, 0, 0x98, 0x96, 0x80])]"

definition example_sched :: sched_state where
  "example_sched = setStatusReportingContract init_sched_state 5"

definition example_round :: "error + (sched_state \<times> sched_event list)" where
  "example_round =
     updateScheduling example_reports 1000 (\<lambda>now op. 7) [1, 2, 3] [9, 10] example_sched"

definition example_after :: sched_state where
  "example_after = commit example_sched example_round"

definition example_drained :: sched_state where
  "example_drained = example_sched\<lparr>throughputRemainder := (\<lambda>user. 9999)\<rparr>"

definition example_idle_round :: "error + (sched_state \<times> sched_event list)" where
  "example_idle_round =
     updateScheduling example_reports 1001 (\<lambda>now op. 7) [1, 2, 3] [] example_after"

definition example_second_round :: "error + (sched_state \<times> sched_event list)" where
  "example_second_round =
     updateScheduling example_reports 1001 (\<lambda>now op. 7) [1, 2, 3] [9, 10] example_after"

text \<open>
  A settlement contract with operator 10 billed at rate 3 and no rate for operator 9;
  and a scheduling storage that marks the pair (2, 9) with no service duration recorded.
\<close>

definition example_settle :: settle_state where
  "example_settle = setOperatorRate (setSchedulingContract init_settle_state 6) 10 3"

definition example_marked :: sched_state where
  "example_marked =
     init_sched_state\<lparr>schedulingMatrix := (\<lambda>user operator. user = 2 \<and> operator = 9)\<rparr>"

section \<open>Facts about results and checked arithmetic\<close>

lemma bind_result_simps:
  "bind_result (Inr x) f = f x"
  "bind_result (Inl e) f = Inl e"
  by (simp_all add: bind_result_def)

lemma checked_simps:
  "a + b \<le> UINT_MAX \<Longrightarrow> checked_add a b = Inr (a + b)"
  "a * b \<le> UINT_MAX \<Longrightarrow> checked_mul a b = Inr (a * b)"
  "b \<noteq> 0 \<Longrightarrow> checked_div a b = Inr (a div b)"
  "b \<noteq> 0 \<Longrightarrow> checked_mod a b = Inr (a mod b)"
  by (simp_all add: checked_add_def checked_mul_def checked_div_def checked_mod_def)

lemma bind_result_assoc:
  "bind_result (bind_result m f) g = bind_result m (\<lambda>x. bind_result (f x) g)"
  by (cases m) (simp_all add: bind_result_def)

lemma bind_result_Inr_iff:
  "bind_result m f = Inr y \<longleftrightarrow> (\<exists>x. m = Inr x \<and> f x = Inr y)"
  by (cases m) (simp_all add: bind_result_def)

section \<open>Properties of the status reporting contract\<close>

lemma byte_bound: "unat (b :: byte) < 256"
  using unsigned_less [of b, where ?'a = nat] by simp

lemma pow256_8_le: "(256::nat) ^ 8 \<le> UINT_MAX"
  by (simp add: UINT_MAX_def)

lemma snr_loop_be:
  "i \<le> 8 \<Longrightarrow> 8 \<le> length csi \<Longrightarrow> acc < 256 ^ i \<Longrightarrow>
   snr_loop csi i acc = Inr (acc * 256 ^ (8 - i) + be_uint (take (8 - i) (drop i csi)))"
proof (induction "8 - i" arbitrary: i acc)
  case 0
  then have "i = 8" by simp
  then show ?case by (simp add: snr_loop.simps)
next
  case (Suc n)
  note prems1 = Suc.prems
  show ?case
  proof -
    have True: "i < 8" using Suc.hyps(2) by simp
    have le: "i < length csi" using True prems1 by simp
    have b: "unat (csi ! i) < 256" by (rule byte_bound)
    have "acc + 1 \<le> 256 ^ i" using prems1 by simp
    then have "(acc + 1) * 256 \<le> 256 ^ i * 256" by (rule mult_le_mono1)
    then have nxt: "acc * 256 + unat (csi ! i) < 256 ^ (i + 1)" using b by simp
    have "(256::nat) ^ (i + 1) \<le> 256 ^ 8"
      using True by (intro power_increasing) simp_all
    then have fit: "acc * 256 + unat (csi ! i) \<le> UINT_MAX"
      using nxt pow256_8_le by linarith
    then have fit1: "acc * 256 \<le> UINT_MAX" by simp
    have IH: "snr_loop csi (i + 1) (acc * 256 + unat (csi ! i)) =
        Inr ((acc * 256 + unat (csi ! i)) * 256 ^ (8 - (i + 1))
             + be_uint (take (8 - (i + 1)) (drop (i + 1) csi)))"
      using Suc.hyps(2) True prems1 nxt
      by (intro Suc.hyps(1)) simp_all
    have step: "snr_loop csi i acc = snr_loop csi (i + 1) (acc * 256 + unat (csi ! i))"
      using True le fit fit1
      by (subst snr_loop.simps) (simp add: checked_mul_def checked_add_def bind_result_def)
    have dr: "drop i csi = csi ! i # drop (i + 1) csi"
      using le by (simp add: Cons_nth_drop_Suc)
    have tk: "take (8 - i) (drop i csi) = csi ! i # take (8 - (i + 1)) (drop (i + 1) csi)"
      using True by (simp add: dr take_Cons')
    have len: "length (take (8 - (i + 1)) (drop (i + 1) csi)) = 8 - (i + 1)"
      using prems1 by simp
    have pw: "(256::nat) ^ (8 - i) = 256 * 256 ^ (8 - (i + 1))"
      using True by (metis Suc_diff_Suc Suc_eq_plus1 diff_Suc_eq_diff_pred power_Suc diff_diff_left)
    show ?thesis
      unfolding step IH tk be_uint.simps len pw
      by (simp add: algebra_simps)
  qed
qed

lemma snr_loop_value:
  "8 \<le> length csi \<Longrightarrow> snr_loop csi 0 0 = Inr (be_uint (take 8 csi))"
  using snr_loop_be [of 0 csi 0] by simp

lemma be_uint_bound: "be_uint bs < 256 ^ length bs"
proof (induction bs)
  case Nil
  show ?case by simp
next
  case (Cons b bs)
  have "unat b + 1 \<le> 256" using byte_bound [of b] by simp
  then have "(unat b + 1) * 256 ^ length bs \<le> 256 * 256 ^ length bs"
    by (rule mult_le_mono1)
  then have X: "unat b * 256 ^ length bs + 256 ^ length bs \<le> 256 * 256 ^ length bs"
    by (simp add: algebra_simps)
  have "be_uint (b # bs) = unat b * 256 ^ length bs + be_uint bs" by simp
  moreover have "(256::nat) ^ length (b # bs) = 256 * 256 ^ length bs" by simp
  ultimately show ?case using X Cons.IH by linarith
qed

lemma rateEstimation_eq:
  assumes "8 \<le> length csi"
  shows "rateEstimation csi =
    Inr ((1000 * (if be_uint (take 8 csi) = 0 then 1000000 else be_uint (take 8 csi))
          + 693000 div 2) div 693000)"
proof -
  define snr where "snr = be_uint (take 8 csi)"
  define sc where "sc = (if snr = 0 then 1000000 else snr)"
  have "snr < 256 ^ length (take 8 csi)" unfolding snr_def by (rule be_uint_bound)
  then have snr: "snr < 256 ^ 8" using assms by simp
  have sc: "sc < 256 ^ 8" using snr by (simp add: sc_def)
  have m: "1000 * sc \<le> UINT_MAX"
    using sc by (simp add: UINT_MAX_def)
  have a: "1000 * sc + 346500 \<le> UINT_MAX"
    using sc by (simp add: UINT_MAX_def)
  have c: "(693000::nat) \<le> UINT_MAX" by (simp add: UINT_MAX_def)
  have loop: "snr_loop csi 0 0 = Inr snr"
    unfolding snr_def by (rule snr_loop_value [OF assms])
  have "rateEstimation csi = Inr ((1000 * sc + 693000 div 2) div 693000)"
    using assms m a c
    by (simp add: rateEstimation_def loop bind_result_def Let_def sc_def
        checked_mul_def checked_add_def checked_div_def)
  then show ?thesis by (simp only: sc_def snr_def)
qed

lemma submitReport_short:
  "length csi < 8 \<Longrightarrow> submitReport now s user operator csi = Inl (Revert ''Invalid CSI data'')"
  by (simp add: submitReport_def rateEstimation_def bind_result_def)

lemma submitReport_ok:
  assumes "8 \<le> length csi"
  shows "\<exists>rate. rateEstimation csi = Inr rate \<and> submitReport now s user operator csi =
    Inr (s\<lparr>operatorUserRates := (operatorUserRates s)
              (user := (operatorUserRates s user)
                 (operator := operatorUserRates s user operator @ [rate])),
            latestOperatorUserRate := (latestOperatorUserRate s)
              (user := (latestOperatorUserRate s user) (operator := rate))\<rparr>,
         [ReportSubmitted user operator now rate])"
proof -
  have "csi \<noteq> []" using assms by auto
  then show ?thesis
    using rateEstimation_eq [OF assms]
    by (simp add: submitReport_def validCSI_def bind_result_def Let_def)
qed

text \<open>
  Claim C3. For every channel report of at least 8 bytes, \<open>rateEstimation\<close> returns
  (it does not revert) the value \<open>(1000 * snrScaled + 693000 div 2) div 693000\<close>, where
  \<open>snrScaled\<close> is the big-endian unsigned integer of the first 8 bytes, replaced by
  1,000,000 when it is 0. The result is a function of the bytes alone; a report whose
  first 8 bytes are zero has rate 1443.
\<close>

theorem rateEstimation_formula:
  assumes "8 \<le> length csi"
  shows "rateEstimation csi =
      Inr ((1000 * (if be_uint (take 8 csi) = 0 then 1000000 else be_uint (take 8 csi))
            + 693000 div 2) div 693000)
    \<and> (be_uint (take 8 csi) = 0 \<longrightarrow> rateEstimation csi = Inr 1443)"
  using rateEstimation_eq [OF assms] by simp

theorem rateEstimation_formula_witness:
  "rateEstimation [0, 0, 0, 0, 0, 0, 0, 0, 0, 0, 0, 0, 0] = Inr 1443
   \<and> rateEstimation [0, 0, 0, 0, 0, 0x98, 0x96, 0x80] = Inr 14430"
  using rateEstimation_formula [of "[0, 0, 0, 0, 0, 0, 0, 0, 0, 0, 0, 0, 0]"]
    rateEstimation_formula [of "[0, 0, 0, 0, 0, 0x98, 0x96, 0x80]"]
  by simp

text \<open>
  Claim C10. A report of at least 8 bytes whose big-endian \<open>snrScaled\<close> lies between 1
  and 346 is estimated at rate 0: the estimation succeeds, the submission succeeds, and
  the latest rate of the pair is 0 afterwards. The clamp to 1,000,000 applies to
  \<open>snrScaled = 0\<close> only.
\<close>

theorem rate_zero_for_small_snr:
  assumes "8 \<le> length csi" and "1 \<le> be_uint (take 8 csi)" and "be_uint (take 8 csi) \<le> 346"
  shows "rateEstimation csi = Inr 0
    \<and> (\<exists>s'. submitReport now s user operator csi = Inr (s', [ReportSubmitted user operator now 0])
          \<and> getLatestRate s' user operator = 0)"
proof -
  have r: "rateEstimation csi = Inr 0"
    using assms rateEstimation_eq [OF assms(1)] by simp
  show ?thesis
    using r submitReport_ok [OF assms(1), of now s user operator]
    by (auto simp: getLatestRate_def)
qed

theorem rate_zero_for_small_snr_witness:
  "rateEstimation [0, 0, 0, 0, 0, 0, 1, 90] = Inr 0
   \<and> (\<exists>s'. submitReport 7 init_report_state 1 2 [0, 0, 0, 0, 0, 0, 1, 90]
              = Inr (s', [ReportSubmitted 1 2 7 0])
          \<and> getLatestRate s' 1 2 = 0)"
  using rate_zero_for_small_snr [of "[0, 0, 0, 0, 0, 0, 1, 90]" 7 init_report_state 1 2]
  by simp

text \<open>
  Claim C8. A submission whose report is shorter than 8 bytes reverts with
  \<open>Invalid CSI data\<close>; the storage after the transaction is the storage before it (the
  history and the latest rate of every pair), and no event is emitted.
\<close>

theorem submitReport_invalid:
  assumes "length csi < 8"
  shows "submitReport now s user operator csi = Inl (Revert ''Invalid CSI data'')
    \<and> commit s (submitReport now s user operator csi) = s
    \<and> emitted (submitReport now s user operator csi) = []"
  using submitReport_short [OF assms] by (simp add: commit_def emitted_def)

lemma commit_submitReport:
  "commit s (submitReport now s u k csi) =
     (if validCSI csi then
        (case rateEstimation csi of
           Inl e \<Rightarrow> s
         | Inr rate \<Rightarrow>
             s\<lparr>operatorUserRates := (operatorUserRates s)
                  (u := (operatorUserRates s u) (k := operatorUserRates s u k @ [rate])),
               latestOperatorUserRate := (latestOperatorUserRate s)
                  (u := (latestOperatorUserRate s u) (k := rate))\<rparr>)
      else s)"
  by (simp add: commit_def submitReport_def bind_result_def Let_def split: sum.splits)

lemma submit_all_latest:
  "getLatestRate (submit_all s subs) user operator =
     (if pair_rates user operator subs = [] then getLatestRate s user operator
      else last (pair_rates user operator subs))"
proof (induction subs arbitrary: s)
  case Nil
  show ?case by simp
next
  case (Cons x subs)
  obtain now u k csi where x: "x = (now, u, k, csi)" by (cases x) auto
  show ?case
    unfolding x submit_all.simps Cons.IH
    by (auto simp: commit_submitReport getLatestRate_def split: sum.splits)
qed

lemma submit_all_history:
  "operatorUserRates (submit_all s subs) user operator =
     operatorUserRates s user operator @ pair_rates user operator subs"
proof (induction subs arbitrary: s)
  case Nil
  show ?case by simp
next
  case (Cons x subs)
  obtain now u k csi where x: "x = (now, u, k, csi)" by (cases x) auto
  show ?case
    unfolding x submit_all.simps Cons.IH
    by (auto simp: commit_submitReport split: sum.splits)
qed

text \<open>
  Claim C7. The latest rate of a pair is 0 in the initial storage. After any sequence of
  submissions (to any pairs, valid or not), the latest rate of a pair is the rate of the
  last successful submission for that pair, and is unchanged when there was none; the
  history of the pair has grown by exactly the rates of its successful submissions, in
  order.
\<close>

theorem latestRate_is_last_submission:
  "getLatestRate init_report_state user operator = 0
   \<and> getLatestRate (submit_all s subs) user operator =
       (if pair_rates user operator subs = [] then getLatestRate s user operator
        else last (pair_rates user operator subs))
   \<and> operatorUserRates (submit_all s subs) user operator =
       operatorUserRates s user operator @ pair_rates user operator subs"
  using submit_all_latest [of s subs user operator] submit_all_history [of s subs user operator]
  by (simp add: getLatestRate_def init_report_state_def)

lemma rate_examples:
  "rateEstimation [0, 0, 0, 0, 0, 0x98, 0x96, 0x80] = Inr 14430"
  "rateEstimation [0, 0, 0, 0, 0, 0, 0, 0] = Inr 1443"
  "rateEstimation [0, 0, 0, 0, 0, 0x0F, 0x42, 0x40, 0xFF] = Inr 1443"
  "rateEstimation [0, 0, 0, 0, 0x01, 0x31, 0x2D, 0x00] = Inr 28860"
  "rateEstimation [1, 2, 3] = Inl (Revert ''Invalid CSI data'')"
  by (simp_all add: rateEstimation_eq) (simp add: rateEstimation_def)

theorem latestRate_is_last_submission_witness:
  "getLatestRate init_report_state 1 9 = 0
   \<and> getLatestRate (submit_all init_report_state
         [(100, 1, 9, [0, 0, 0, 0, 0, 0x98, 0x96, 0x80])]) 1 9 = 14430
   \<and> getLatestRate (submit_all init_report_state
         [(100, 1, 9, [0, 0, 0, 0, 0, 0x98, 0x96, 0x80]),
          (101, 2, 9, [0, 0, 0, 0, 0, 0, 0, 0]),
          (102, 1, 9, [1, 2, 3]),
          (103, 1, 9, [0, 0, 0, 0, 0x01, 0x31, 0x2D, 0x00]),
          (104, 1, 8, [0, 0, 0, 0, 0, 0x0F, 0x42, 0x40, 0xFF])]) 1 9 = 28860
   \<and> operatorUserRates (submit_all init_report_state
         [(100, 1, 9, [0, 0, 0, 0, 0, 0x98, 0x96, 0x80]),
          (101, 2, 9, [0, 0, 0, 0, 0, 0, 0, 0]),
          (102, 1, 9, [1, 2, 3]),
          (103, 1, 9, [0, 0, 0, 0, 0x01, 0x31, 0x2D, 0x00]),
          (104, 1, 8, [0, 0, 0, 0, 0, 0x0F, 0x42, 0x40, 0xFF])]) 1 9 = [14430, 28860]"
  using latestRate_is_last_submission [of 1 9 init_report_state
         "[(100, 1, 9, [0, 0, 0, 0, 0, 0x98, 0x96, 0x80])]"]
    latestRate_is_last_submission [of 1 9 init_report_state
         "[(100, 1, 9, [0, 0, 0, 0, 0, 0x98, 0x96, 0x80]),
          (101, 2, 9, [0, 0, 0, 0, 0, 0, 0, 0]),
          (102, 1, 9, [1, 2, 3]),
          (103, 1, 9, [0, 0, 0, 0, 0x01, 0x31, 0x2D, 0x00]),
          (104, 1, 8, [0, 0, 0, 0, 0, 0x0F, 0x42, 0x40, 0xFF])]"]
  by (simp add: rate_examples validCSI_def init_report_state_def)

theorem submitReport_invalid_witness:
  "submitReport 100 init_report_state 1 9 [1, 2, 3] = Inl (Revert ''Invalid CSI data'')
   \<and> commit init_report_state (submitReport 100 init_report_state 1 9 [1, 2, 3])
       = init_report_state
   \<and> emitted (submitReport 100 init_report_state 1 9 [1, 2, 3]) = []"
  using submitReport_invalid [of "[1, 2, 3]" 100 init_report_state 1 9]
  by (simp add: commit_def emitted_def)

section \<open>Properties of the throughput update\<close>

lemma throughput_step_Inr:
  assumes "throughput_step (v, r) X = Inr (v', r')"
  shows "v' = (9999 * v + X * 100000000 + r) div 10000"
    and "r' = (9999 * v + X * 100000000 + r) mod 10000"
  using assms
  by (auto simp: throughput_step_def bind_result_def checked_mul_def checked_add_def
      checked_div_def checked_mod_def alpha_def split: if_splits)

lemma throughput_step_ok:
  assumes "9999 * v + X * 100000000 + r \<le> UINT_MAX"
  shows "throughput_step (v, r) X =
    Inr ((9999 * v + X * 100000000 + r) div 10000, (9999 * v + X * 100000000 + r) mod 10000)"
proof -
  have "9999 * v \<le> UINT_MAX" "X * 100000000 \<le> UINT_MAX" "9999 * v + X * 100000000 \<le> UINT_MAX"
    using assms by simp_all
  then show ?thesis
    using assms
    by (simp add: throughput_step_def bind_result_def checked_mul_def checked_add_def
      checked_div_def checked_mod_def alpha_def)
qed

lemma iterate_update_end:
  "iterate_update (Suc k) X tr = bind_result (iterate_update k X tr) (\<lambda>t. throughput_step t X)"
proof (induction k arbitrary: tr)
  case 0
  show ?case by (cases "throughput_step tr X") (simp_all add: bind_result_def)
next
  case (Suc k)
  have "iterate_update (Suc (Suc k)) X tr =
      bind_result (throughput_step tr X) (iterate_update (Suc k) X)" by simp
  also have "\<dots> = bind_result (throughput_step tr X)
      (\<lambda>t. bind_result (iterate_update k X t) (\<lambda>t. throughput_step t X))"
  proof -
    have "iterate_update (Suc k) X =
        (\<lambda>t. bind_result (iterate_update k X t) (\<lambda>t. throughput_step t X))"
      by (rule ext) (rule Suc.IH)
    then show ?thesis by (simp only:)
  qed
  also have "\<dots> = bind_result (iterate_update (Suc k) X tr) (\<lambda>t. throughput_step t X)"
    by (simp add: bind_result_assoc)
  finally show ?case .
qed

lemma four: "(4::nat) = Suc (Suc (Suc (Suc 0)))" by simp

lemma iterate_update_4_2500: "iterate_update 4 2500 (0, 0) = Inr (99985001, 0)"
  unfolding four
  by (simp add: throughput_step_def bind_result_def checked_mul_def checked_add_def
      checked_div_def checked_mod_def alpha_def UINT_MAX_def)

lemma ewma_fixed_4_2500: "ewma_fixed 2500 4 = 99985000"
proof -
  have "of_nat PRECISION * ewma 2500 4 = (3999400039999::rat) / 40000"
    unfolding four by (simp add: alpha_def PRECISION_def)
  moreover have "\<lfloor>(3999400039999::rat) / 40000\<rfloor> = 99985000"
    by (rule floor_unique) simp_all
  ultimately show ?thesis by (simp only: ewma_fixed_def)
qed

lemma step_invariant:
  fixes v r X :: nat and E :: rat
  assumes "r < 10000"
    and "0 \<le> of_nat (10000 * v + r) - 10000 * (100000000 * E)"
    and "of_nat (10000 * v + r) - 10000 * (100000000 * E) < 10000"
  shows "0 \<le> of_nat (9999 * v + X * 100000000 + r)
            - 10000 * (100000000 * ((9999 * E + of_nat X) / 10000))"
    and "of_nat (9999 * v + X * 100000000 + r)
            - 10000 * (100000000 * ((9999 * E + of_nat X) / 10000)) < 10000"
proof -
  define d :: rat where "d = of_nat (10000 * v + r) - 10000 * (100000000 * E)"
  have d0: "0 \<le> d" and d1: "d < 10000" using assms by (simp_all add: d_def)
  have rr: "(of_nat r :: rat) \<le> 9999" using assms(1) by (simp add: of_nat_le_iff [symmetric] del: of_nat_le_iff)
  have r0: "(0::rat) \<le> of_nat r" by simp
  have eq: "of_nat (9999 * v + X * 100000000 + r)
            - 10000 * (100000000 * ((9999 * E + of_nat X) / 10000))
          = (9999 * d + of_nat r) / 10000"
    by (simp add: d_def field_simps)
  show "0 \<le> of_nat (9999 * v + X * 100000000 + r)
            - 10000 * (100000000 * ((9999 * E + of_nat X) / 10000))"
    unfolding eq using d0 r0 by simp
  show "of_nat (9999 * v + X * 100000000 + r)
            - 10000 * (100000000 * ((9999 * E + of_nat X) / 10000)) < 10000"
    unfolding eq using d1 rr by simp
qed

lemma iterate_update_invariant:
  "iterate_update k X (0, 0) = Inr (v, r) \<Longrightarrow>
     r < 10000
     \<and> 0 \<le> of_nat (10000 * v + r) - 10000 * (100000000 * ewma X k)
     \<and> of_nat (10000 * v + r) - 10000 * (100000000 * ewma X k) < 10000"
proof (induction k arbitrary: v r)
  case 0
  then show ?case by simp
next
  case (Suc k)
  from Suc.prems obtain v0 r0 where
    prev: "iterate_update k X (0, 0) = Inr (v0, r0)" and
    step: "throughput_step (v0, r0) X = Inr (v, r)"
    unfolding iterate_update_end by (auto simp: bind_result_Inr_iff)
  define n where "n = 9999 * v0 + X * 100000000 + r0"
  have v: "v = n div 10000" and r: "r = n mod 10000"
    using throughput_step_Inr [OF step] by (simp_all add: n_def)
  have n: "10000 * v + r = n" by (simp add: v r)
  have E: "ewma X (Suc k) = (9999 * ewma X k + of_nat X) / 10000"
    by (simp add: alpha_def)
  from Suc.IH [OF prev] have ih:
    "r0 < 10000"
    "0 \<le> of_nat (10000 * v0 + r0) - 10000 * (100000000 * ewma X k)"
    "of_nat (10000 * v0 + r0) - 10000 * (100000000 * ewma X k) < 10000"
    by simp_all
  have "r < 10000" by (simp add: r)
  then show ?case
    unfolding n E n_def
    using step_invariant [OF ih, of X] by simp
qed

lemma div_10000_exact: "(X * 100000000) div 10000 = X * (10000::nat)"
  by simp

lemma iterate_update_small:
  assumes "iterate_update K X (0, 0) = Inr (v, r)" and "K \<le> 3"
  shows "int v = ewma_fixed X K"
proof -
  consider "K = 0" | "K = Suc 0" | "K = Suc (Suc 0)" | "K = Suc (Suc (Suc 0))"
    using assms(2) by (cases K rule: nat.exhaust; simp; cases "K - 1"; simp; cases "K - 2"; simp) 
  then show ?thesis
  proof cases
    case 1
    then show ?thesis using assms(1) by (simp add: ewma_fixed_def)
  next
    case 2
    then have "throughput_step (0, 0) X = Inr (v, r)"
      using assms(1) by (simp add: bind_result_Inr_iff)
    from throughput_step_Inr(1) [OF this] have "v = X * 10000" by simp
    moreover have "of_nat PRECISION * ewma X (Suc 0) = (of_nat (X * 10000) :: rat)"
      by (simp add: PRECISION_def alpha_def)
    ultimately show ?thesis unfolding 2 ewma_fixed_def by (simp only: floor_of_nat)
  next
    case 3
    then obtain v1 r1 where s1: "throughput_step (0, 0) X = Inr (v1, r1)"
      and s2: "throughput_step (v1, r1) X = Inr (v, r)"
      using assms(1) by (auto simp: bind_result_Inr_iff)
    from throughput_step_Inr [OF s1] have 1: "v1 = X * 10000" "r1 = 0" by simp_all
    have "9999 * (X * 10000) + X * 100000000 = (X * 19999) * 10000" by simp
    with throughput_step_Inr(1) [OF s2] 1 have "v = X * 19999" by simp
    moreover have "of_nat PRECISION * ewma X (Suc (Suc 0)) = (of_nat (X * 19999) :: rat)"
      by (simp add: PRECISION_def alpha_def)
    ultimately show ?thesis unfolding 3 ewma_fixed_def by (simp only: floor_of_nat)
  next
    case 4
    then obtain v1 r1 v2 r2 where s1: "throughput_step (0, 0) X = Inr (v1, r1)"
      and s2: "throughput_step (v1, r1) X = Inr (v2, r2)"
      and s3: "throughput_step (v2, r2) X = Inr (v, r)"
      using assms(1) by (auto simp: bind_result_Inr_iff)
    from throughput_step_Inr [OF s1] have 1: "v1 = X * 10000" "r1 = 0" by simp_all
    have e: "9999 * (X * 10000) + X * 100000000 = (X * 19999) * 10000" by simp
    from throughput_step_Inr [OF s2] have 2: "v2 = X * 19999" "r2 = 0"
      unfolding 1 by (simp_all add: e)
    have "9999 * (X * 19999) + X * 100000000 = X * 299970001" by simp
    with throughput_step_Inr(1) [OF s3] 2 have v: "v = (X * 299970001) div 10000" by simp
    have "of_nat PRECISION * ewma X (Suc (Suc (Suc 0)))
        = (of_nat (X * 299970001) :: rat) / of_nat 10000"
      by (simp add: PRECISION_def alpha_def)
    then show ?thesis unfolding 4 ewma_fixed_def v
      by (simp only: floor_divide_of_nat_eq)
  qed
qed

lemma iterate_update_returns:
  assumes "X * 1000000000000 + 9999 \<le> UINT_MAX"
  shows "v \<le> X * 100000000 \<Longrightarrow> r < 10000 \<Longrightarrow> \<exists>v' r'. iterate_update k X (v, r) = Inr (v', r')"
proof (induction k arbitrary: v r)
  case 0
  show ?case by simp
next
  case (Suc k)
  define n where "n = 9999 * v + X * 100000000 + r"
  have n: "n \<le> X * 1000000000000 + 9999" using Suc.prems by (simp add: n_def)
  then have "n \<le> UINT_MAX" using assms by simp
  then have step: "throughput_step (v, r) X = Inr (n div 10000, n mod 10000)"
    unfolding n_def by (rule throughput_step_ok)
  have "n div 10000 \<le> (X * 1000000000000 + 9999) div 10000"
    using n by (rule div_le_mono)
  also have "\<dots> = X * 100000000" by simp
  finally have "n div 10000 \<le> X * 100000000" .
  moreover have "n mod 10000 < 10000" by simp
  ultimately obtain v' r' where "iterate_update k X (n div 10000, n mod 10000) = Inr (v', r')"
    using Suc.IH by blast
  then show ?case by (simp add: step bind_result_def)
qed

lemma stored_value_bounds:
  assumes "iterate_update K X (0, 0) = Inr (v, r)"
  shows "ewma_fixed X K \<le> int v" and "int v \<le> ewma_fixed X K + 1"
proof -
  define q :: rat where "q = of_nat PRECISION * ewma X K"
  from iterate_update_invariant [OF assms] have
    r: "r < 10000" and
    lo: "0 \<le> of_nat (10000 * v + r) - 10000 * q" and
    hi: "of_nat (10000 * v + r) - 10000 * q < 10000"
    by (simp_all add: q_def PRECISION_def)
  have rr: "(of_nat r :: rat) < 10000" "(0::rat) \<le> of_nat r"
    using r by (simp_all add: of_nat_less_iff [symmetric] del: of_nat_less_iff)
  have "q < of_int (int v + 1)" using lo rr by simp
  then have "\<lfloor>q\<rfloor> < int v + 1" by (simp only: floor_less_iff)
  then show "ewma_fixed X K \<le> int v" by (simp add: ewma_fixed_def q_def)
  have "of_int (int v - 1) \<le> q" using hi rr by simp
  then have "int v - 1 \<le> \<lfloor>q\<rfloor>" by (simp only: le_floor_iff)
  then show "int v \<le> ewma_fixed X K + 1" by (simp add: ewma_fixed_def q_def)
qed

text \<open>
  Claim C1, as amended. Starting from \<open>(value, remainder) = (0, 0)\<close> and applying the
  throughput update \<open>K\<close> times with the same total \<open>X\<close>, the stored value is never
  below the exact rational average in 1e8 fixed point floored once, and exceeds it by at
  most one unit; it is equal to it for \<open>K \<le> 3\<close>. The update returns in every round
  when \<open>X * 10^12 + 9999\<close> fits a \<open>uint\<close>. (Equality for every \<open>K\<close> fails: see
  the counterexample at \<open>K = 4\<close>, \<open>X = 2500\<close>.)
\<close>

theorem throughput_within_one_unit:
  "(iterate_update K X (0, 0) = Inr (v, r) \<longrightarrow>
      ewma_fixed X K \<le> int v \<and> int v \<le> ewma_fixed X K + 1
      \<and> (K \<le> 3 \<longrightarrow> int v = ewma_fixed X K))
   \<and> (X * 1000000000000 + 9999 \<le> UINT_MAX \<longrightarrow>
      (\<exists>v' r'. iterate_update K X (0, 0) = Inr (v', r')))"
  using stored_value_bounds [of K X v r] iterate_update_small [of K X v r]
    iterate_update_returns [of X 0 0 K]
  by simp

lemma three: "(3::nat) = Suc (Suc (Suc 0))" by simp

lemma iterate_update_3_2500: "iterate_update 3 2500 (0, 0) = Inr (74992500, 2500)"
  unfolding three
  by (simp add: throughput_step_def bind_result_def checked_mul_def checked_add_def
      checked_div_def checked_mod_def alpha_def UINT_MAX_def)

theorem throughput_within_one_unit_witness:
  "iterate_update 4 2500 (0, 0) = Inr (99985001, 0)
   \<and> ewma_fixed 2500 4 \<le> 99985001 \<and> 99985001 \<le> ewma_fixed 2500 4 + 1
   \<and> iterate_update 3 2500 (0, 0) = Inr (74992500, 2500)
   \<and> ewma_fixed 2500 3 = 74992500"
  using throughput_within_one_unit [of 4 2500 99985001 0]
    throughput_within_one_unit [of 3 2500 74992500 2500]
  by (simp add: iterate_update_4_2500 iterate_update_3_2500)

text \<open>
  The claim as stated fails at \<open>K = 4\<close>, \<open>X = 2500\<close>. The contract stores, round by
  round, \<open>(25000000, 0)\<close>, \<open>(49997500, 0)\<close>, \<open>(74992500, 2500)\<close> and
  \<open>(99985001, 0)\<close>: in round 4 the numerator is
  \<open>9999 * 74992500 + 2500 * 100000000 + 2500 = 999850010000\<close>. The exact average
  \<open>2500 * (1 - (9999/10000)^4)\<close> in 1e8 fixed point is 99985000.999975, floored to
  99985000. The remainder of round 3 is added back with weight 1 in round 4, where the
  exact recurrence gives it weight \<open>9999/10000\<close>.
\<close>

theorem throughput_exactness_counterexample:
  "iterate_update 4 2500 (0, 0) = Inr (99985001, 0) \<and> ewma_fixed 2500 4 = 99985000"
  by (simp add: iterate_update_4_2500 ewma_fixed_4_2500)

section \<open>Properties of the scheduling contract\<close>

lemma sched_getLatestRate_Inr:
  "sched_getLatestRate s rs u op = Inr x \<longleftrightarrow>
     statusReportingContract s \<noteq> 0 \<and> x = getLatestRate rs u op"
  by (auto simp: sched_getLatestRate_def)

lemma compute_priority_Inr:
  "compute_priority l tp = Inr p \<Longrightarrow>
     p = (if tp > 0 then (l * 1000000000) div tp else l * 100000000)"
  by (auto simp: compute_priority_def bind_result_def checked_mul_def checked_div_def
      split: if_splits)

lemma priority_selectedUser [simp]:
  "priority (s\<lparr>selectedUser := f\<rparr>) rs u op = priority s rs u op"
  by (simp add: priority_def)

lemma priority_cong:
  "throughput s1 = throughput s2 \<Longrightarrow> priority s1 rs u op = priority s2 rs u op"
  by (simp add: priority_def)

lemma select_loop_step:
  assumes "select_loop rs op (u # us) (s, b, m) = Inr r"
  shows "select_loop rs op us
      (if priority s rs u op > m
       then (s\<lparr>selectedUser := (selectedUser s) (op := u)\<rparr>,
             getLatestRate rs u op, priority s rs u op)
       else (s, b, m)) = Inr r"
proof -
  from assms obtain l p where
    l: "sched_getLatestRate s rs u op = Inr l" and
    p: "compute_priority l (throughput s u) = Inr p" and
    rec: "(if p > m then select_loop rs op us
              (s\<lparr>selectedUser := (selectedUser s) (op := u)\<rparr>, l, p)
          else select_loop rs op us (s, b, m)) = Inr r"
    by (auto simp: bind_result_Inr_iff)
  have l': "l = getLatestRate rs u op" using l by (simp add: sched_getLatestRate_Inr)
  have p': "p = priority s rs u op"
    using compute_priority_Inr [OF p] by (simp add: priority_def l')
  show ?thesis using rec by (simp add: l' p' split: if_splits)
qed

lemma select_loop_result:
  "select_loop rs op us (s, b, m) = Inr (s', b', m') \<Longrightarrow>
     ((\<forall>v \<in> set us. priority s rs v op \<le> m) \<and> s' = s \<and> b' = b \<and> m' = m)
     \<or> (\<exists>pre w post. us = pre @ w # post \<and> m < priority s rs w op
          \<and> (\<forall>v \<in> set pre. priority s rs v op < priority s rs w op)
          \<and> (\<forall>v \<in> set post. priority s rs v op \<le> priority s rs w op)
          \<and> s' = s\<lparr>selectedUser := (selectedUser s) (op := w)\<rparr>
          \<and> b' = getLatestRate rs w op \<and> m' = priority s rs w op)"
proof (induction us arbitrary: s b m)
  case Nil
  then show ?case by simp
next
  case (Cons u us)
  let ?p = "\<lambda>v. priority s rs v op"
  show ?case
  proof (cases "?p u > m")
    case True
    let ?s1 = "s\<lparr>selectedUser := (selectedUser s) (op := u)\<rparr>"
    have rec: "select_loop rs op us (?s1, getLatestRate rs u op, ?p u) = Inr (s', b', m')"
      using select_loop_step [OF Cons.prems] True by simp
    from Cons.IH [OF rec] show ?thesis
    proof (elim disjE exE conjE)
      assume a: "\<forall>v \<in> set us. priority ?s1 rs v op \<le> ?p u"
        and e: "s' = ?s1" "b' = getLatestRate rs u op" "m' = ?p u"
      have "u # us = [] @ u # us \<and> m < ?p u
          \<and> (\<forall>v \<in> set []. ?p v < ?p u) \<and> (\<forall>v \<in> set us. ?p v \<le> ?p u)
          \<and> s' = s\<lparr>selectedUser := (selectedUser s) (op := u)\<rparr>
          \<and> b' = getLatestRate rs u op \<and> m' = ?p u"
        using a e True by simp
      then show ?thesis by - (rule disjI2, (rule exI)+, assumption)
    next
      fix pre w post
      assume us: "us = pre @ w # post"
        and gt: "?p u < priority ?s1 rs w op"
        and pre: "\<forall>v \<in> set pre. priority ?s1 rs v op < priority ?s1 rs w op"
        and post: "\<forall>v \<in> set post. priority ?s1 rs v op \<le> priority ?s1 rs w op"
        and e: "s' = ?s1\<lparr>selectedUser := (selectedUser ?s1) (op := w)\<rparr>"
          "b' = getLatestRate rs w op" "m' = priority ?s1 rs w op"
      have "u # us = (u # pre) @ w # post \<and> m < ?p w
          \<and> (\<forall>v \<in> set (u # pre). ?p v < ?p w) \<and> (\<forall>v \<in> set post. ?p v \<le> ?p w)
          \<and> s' = s\<lparr>selectedUser := (selectedUser s) (op := w)\<rparr>
          \<and> b' = getLatestRate rs w op \<and> m' = ?p w"
        using us gt pre post e True by simp
      then show ?thesis by - (rule disjI2, (rule exI)+, assumption)
    qed
  next
    case False
    have rec: "select_loop rs op us (s, b, m) = Inr (s', b', m')"
      using select_loop_step [OF Cons.prems] False by simp
    from Cons.IH [OF rec] show ?thesis
    proof (elim disjE exE conjE)
      assume a: "\<forall>v \<in> set us. ?p v \<le> m" and e: "s' = s" "b' = b" "m' = m"
      show ?thesis by (rule disjI1) (use a e False in simp)
    next
      fix pre w post
      assume us: "us = pre @ w # post"
        and gt: "m < ?p w"
        and pre: "\<forall>v \<in> set pre. ?p v < ?p w"
        and post: "\<forall>v \<in> set post. ?p v \<le> ?p w"
        and e: "s' = s\<lparr>selectedUser := (selectedUser s) (op := w)\<rparr>"
          "b' = getLatestRate rs w op" "m' = ?p w"
      have "u # us = (u # pre) @ w # post \<and> m < ?p w
          \<and> (\<forall>v \<in> set (u # pre). ?p v < ?p w) \<and> (\<forall>v \<in> set post. ?p v \<le> ?p w)
          \<and> s' = s\<lparr>selectedUser := (selectedUser s) (op := w)\<rparr>
          \<and> b' = getLatestRate rs w op \<and> m' = ?p w"
        using us gt pre post e False by simp
      then show ?thesis by - (rule disjI2, (rule exI)+, assumption)
    qed
  qed
qed

lemma first_maximum_decomposition:
  assumes "us = pre @ w # post" and "0 < f w"
    and "\<forall>v \<in> set pre. f v < f w" and "\<forall>v \<in> set post. f v \<le> f w"
  shows "first_maximum f us w"
proof -
  have "\<forall>v \<in> set pre. v \<noteq> w" using assms(3) by auto
  then have "takeWhile (\<lambda>v. v \<noteq> w) us = pre"
    unfolding assms(1) by (simp add: takeWhile_append2)
  then show ?thesis
    unfolding first_maximum_def using assms by (auto simp: less_imp_le)
qed

lemma clear_selection_fields [simp]:
  "selectedUser (clear_selection s op) = (selectedUser s) (op := 0)"
  "throughput (clear_selection s op) = throughput s"
  "throughputRemainder (clear_selection s op) = throughputRemainder s"
  "statusReportingContract (clear_selection s op) = statusReportingContract s"
  "registrationContract (clear_selection s op) = registrationContract s"
  "serviceDuration (clear_selection s op) = serviceDuration s"
  "schedulingMatrix (clear_selection s op) u k =
     (if k = op \<and> u = selectedUser s op \<and> u \<noteq> 0 then False else schedulingMatrix s u k)"
  "allocatedRate (clear_selection s op) u k =
     (if k = op \<and> u = selectedUser s op \<and> u \<noteq> 0 then 0 else allocatedRate s u k)"
  by (simp_all add: clear_selection_def Let_def)

lemma mark_selection_eq:
  "mark_selection now keccak s op b =
     Inr (if selectedUser s op \<noteq> 0 then
            s\<lparr>schedulingMatrix := (schedulingMatrix s)
                  (selectedUser s op := (schedulingMatrix s (selectedUser s op)) (op := True)),
              allocatedRate := (allocatedRate s)
                  (selectedUser s op := (allocatedRate s (selectedUser s op)) (op := b)),
              serviceDuration := (serviceDuration s)
                  (selectedUser s op := (serviceDuration s (selectedUser s op))
                     (op := 35 + keccak now op mod 16))\<rparr>
          else s)"
proof -
  have "keccak now op mod 16 < 16" by simp
  then have "35 + keccak now op mod 16 \<le> UINT_MAX"
    by (simp add: UINT_MAX_def)
  then show ?thesis
    by (simp add: mark_selection_def bind_result_def checked_mod_def checked_add_def Let_def)
qed

lemma first_maximum_Nil [simp]: "\<not> first_maximum f [] w"
  by (simp add: first_maximum_def)

lemma schedule_operator_fields:
  assumes "schedule_operator rs now keccak users s op = Inr s'"
  shows "k \<noteq> op \<Longrightarrow> selectedUser s' k = selectedUser s k"
    and "k \<noteq> op \<Longrightarrow> schedulingMatrix s' u k = schedulingMatrix s u k"
    and "k \<noteq> op \<Longrightarrow> allocatedRate s' u k = allocatedRate s u k"
    and "k \<noteq> op \<Longrightarrow> serviceDuration s' u k = serviceDuration s u k"
    and "throughput s' = throughput s"
    and "throughputRemainder s' = throughputRemainder s"
    and "statusReportingContract s' = statusReportingContract s"
    and "registrationContract s' = registrationContract s"
    and "schedulingMatrix s' u op \<longleftrightarrow>
           (u = selectedUser s' op \<and> u \<noteq> 0)
           \<or> (schedulingMatrix s u op \<and> \<not> (u = selectedUser s op \<and> u \<noteq> 0))"
    and "selectedUser s' op \<noteq> 0 \<Longrightarrow>
           allocatedRate s' (selectedUser s' op) op = getLatestRate rs (selectedUser s' op) op"
    and "selectedUser s' op \<noteq> 0 \<Longrightarrow>
           serviceDuration s' (selectedUser s' op) op = 35 + keccak now op mod 16"
    and "(selectedUser s' op = 0 \<and> (\<forall>v \<in> set users. priority s rs v op = 0))
           \<or> first_maximum (\<lambda>u. priority s rs u op) users (selectedUser s' op)"
proof -
  let ?c = "clear_selection s op"
  from assms obtain s3 b' m' where
    loop: "select_loop rs op users (?c, 0, 0) = Inr (s3, b', m')" and
    mark: "mark_selection now keccak s3 op b' = Inr s'"
    by (auto simp: schedule_operator_def bind_result_Inr_iff)
  have pc: "priority ?c rs v op = priority s rs v op" for v
    by (rule priority_cong) simp
  from select_loop_result [OF loop]
  have "\<exists>w. s3 = ?c\<lparr>selectedUser := (selectedUser s) (op := w)\<rparr>
        \<and> (w \<noteq> 0 \<longrightarrow> b' = getLatestRate rs w op)
        \<and> ((w = 0 \<and> (\<forall>v \<in> set users. priority s rs v op = 0))
            \<or> first_maximum (\<lambda>u. priority s rs u op) users w)"
  proof (elim disjE exE conjE)
    assume a: "\<forall>v \<in> set users. priority ?c rs v op \<le> 0" and e: "s3 = ?c"
    have "s3 = ?c\<lparr>selectedUser := (selectedUser s) (op := 0)\<rparr>"
      unfolding e by simp
    then show ?thesis using a by (intro exI [of _ 0]) (simp add: pc)
  next
    fix pre w post
    assume us: "users = pre @ w # post"
      and gt: "0 < priority ?c rs w op"
      and pre: "\<forall>v \<in> set pre. priority ?c rs v op < priority ?c rs w op"
      and post: "\<forall>v \<in> set post. priority ?c rs v op \<le> priority ?c rs w op"
      and e: "s3 = ?c\<lparr>selectedUser := (selectedUser ?c) (op := w)\<rparr>"
        "b' = getLatestRate rs w op"
    have fm: "first_maximum (\<lambda>u. priority s rs u op) users w"
      using first_maximum_decomposition [of users pre w post "\<lambda>u. priority s rs u op"]
        us gt pre post by (simp add: pc)
    have "s3 = ?c\<lparr>selectedUser := (selectedUser s) (op := w)\<rparr>"
      unfolding e by simp
    then show ?thesis using fm e(2) by (intro exI [of _ w]) simp
  qed
  then obtain w where
    s3: "s3 = ?c\<lparr>selectedUser := (selectedUser s) (op := w)\<rparr>" and
    b': "w \<noteq> 0 \<Longrightarrow> b' = getLatestRate rs w op" and
    w: "(w = 0 \<and> (\<forall>v \<in> set users. priority s rs v op = 0))
        \<or> first_maximum (\<lambda>u. priority s rs u op) users w"
    by blast
  have sel3: "selectedUser s3 op = w" by (simp add: s3)
  have s': "s' = (if w \<noteq> 0 then
            s3\<lparr>schedulingMatrix := (schedulingMatrix s3)
                  (w := (schedulingMatrix s3 w) (op := True)),
              allocatedRate := (allocatedRate s3)
                  (w := (allocatedRate s3 w) (op := b')),
              serviceDuration := (serviceDuration s3)
                  (w := (serviceDuration s3 w) (op := 35 + keccak now op mod 16))\<rparr>
          else s3)"
    using mark [unfolded mark_selection_eq sel3, THEN Inr_inject, symmetric] .
  have sel: "selectedUser s' op = w" by (simp add: s' s3)
  show "k \<noteq> op \<Longrightarrow> selectedUser s' k = selectedUser s k" by (simp add: s' s3)
  show "k \<noteq> op \<Longrightarrow> schedulingMatrix s' u k = schedulingMatrix s u k" by (simp add: s' s3)
  show "k \<noteq> op \<Longrightarrow> allocatedRate s' u k = allocatedRate s u k" by (simp add: s' s3)
  show "k \<noteq> op \<Longrightarrow> serviceDuration s' u k = serviceDuration s u k" by (simp add: s' s3)
  show "throughput s' = throughput s" by (simp add: s' s3)
  show "throughputRemainder s' = throughputRemainder s" by (simp add: s' s3)
  show "statusReportingContract s' = statusReportingContract s" by (simp add: s' s3)
  show "registrationContract s' = registrationContract s" by (simp add: s' s3)
  show "schedulingMatrix s' u op \<longleftrightarrow>
           (u = selectedUser s' op \<and> u \<noteq> 0)
           \<or> (schedulingMatrix s u op \<and> \<not> (u = selectedUser s op \<and> u \<noteq> 0))"
    unfolding sel by (auto simp: s' s3)
  show "selectedUser s' op \<noteq> 0 \<Longrightarrow>
           allocatedRate s' (selectedUser s' op) op = getLatestRate rs (selectedUser s' op) op"
    unfolding sel using b' by (simp add: s' s3)
  show "selectedUser s' op \<noteq> 0 \<Longrightarrow>
           serviceDuration s' (selectedUser s' op) op = 35 + keccak now op mod 16"
    unfolding sel by (simp add: s' s3)
  show "(selectedUser s' op = 0 \<and> (\<forall>v \<in> set users. priority s rs v op = 0))
           \<or> first_maximum (\<lambda>u. priority s rs u op) users (selectedUser s' op)"
    unfolding sel by (rule w)
qed

lemma schedule_operator_selection_result:
  assumes "schedule_operator rs now keccak users s op = Inr s'"
  shows "selection_result s rs users op s'"
  using schedule_operator_fields(9) [OF assms, of "selectedUser s' op"]
    schedule_operator_fields(10) [OF assms] schedule_operator_fields(12) [OF assms]
  unfolding selection_result_def by blast

lemma selection_result_cong:
  assumes "selection_result s1 rs users op t1"
    and "throughput s2 = throughput s1"
    and "selectedUser t2 op = selectedUser t1 op"
    and "\<And>u. allocatedRate t2 u op = allocatedRate t1 u op"
    and "\<And>u. schedulingMatrix t2 u op = schedulingMatrix t1 u op"
  shows "selection_result s2 rs users op t2"
proof -
  have "priority s2 rs v op = priority s1 rs v op" for v
    by (rule priority_cong) (rule assms(2))
  then show ?thesis
    using assms(1) unfolding selection_result_def assms(3,4,5) by simp
qed

lemma select_all_frame:
  "select_all rs now keccak users ops s = Inr s' \<Longrightarrow>
     throughput s' = throughput s \<and> throughputRemainder s' = throughputRemainder s
     \<and> statusReportingContract s' = statusReportingContract s
     \<and> registrationContract s' = registrationContract s
     \<and> (\<forall>k. k \<notin> set ops \<longrightarrow> selectedUser s' k = selectedUser s k
           \<and> (\<forall>u. schedulingMatrix s' u k = schedulingMatrix s u k
                 \<and> allocatedRate s' u k = allocatedRate s u k
                 \<and> serviceDuration s' u k = serviceDuration s u k))"
proof (induction ops arbitrary: s)
  case Nil
  then show ?case by simp
next
  case (Cons op ops)
  from Cons.prems obtain s1 where
    one: "schedule_operator rs now keccak users s op = Inr s1" and
    rest: "select_all rs now keccak users ops s1 = Inr s'"
    by (auto simp: bind_result_Inr_iff)
  note f = schedule_operator_fields [OF one]
  from Cons.IH [OF rest] show ?case
    by (simp add: f)
qed

lemma select_all_result:
  "select_all rs now keccak users ops s = Inr s' \<Longrightarrow> op \<in> set ops \<Longrightarrow>
     selection_result s rs users op s'"
proof (induction ops arbitrary: s)
  case Nil
  then show ?case by simp
next
  case (Cons k ops)
  from Cons.prems(1) obtain s1 where
    one: "schedule_operator rs now keccak users s k = Inr s1" and
    rest: "select_all rs now keccak users ops s1 = Inr s'"
    by (auto simp: bind_result_Inr_iff)
  have thr: "throughput s1 = throughput s" by (rule schedule_operator_fields(5) [OF one])
  show ?case
  proof (cases "op \<in> set ops")
    case True
    have "selection_result s1 rs users op s'" by (rule Cons.IH [OF rest True])
    then show ?thesis
      by (rule selection_result_cong) (simp_all add: thr)
  next
    case False
    then have k: "k = op" using Cons.prems(2) by simp
    have "selection_result s rs users op s1"
      using schedule_operator_selection_result [OF one] by (simp add: k)
    then show ?thesis
    proof (rule selection_result_cong)
      show "throughput s = throughput s" by simp
      show "selectedUser s' op = selectedUser s1 op"
        using select_all_frame [OF rest] False by simp
      show "allocatedRate s' u op = allocatedRate s1 u op" for u
        using select_all_frame [OF rest] False by simp
      show "schedulingMatrix s' u op = schedulingMatrix s1 u op" for u
        using select_all_frame [OF rest] False by simp
    qed
  qed
qed

lemma schedule_operator_consistent:
  assumes "schedule_operator rs now keccak users s op = Inr s'"
    and "selection_consistent s"
  shows "selection_consistent s'"
  unfolding selection_consistent_def
proof (intro allI impI)
  fix u k
  assume m: "schedulingMatrix s' u k"
  note f = schedule_operator_fields [OF assms(1)]
  show "u \<noteq> 0 \<and> selectedUser s' k = u"
  proof (cases "k = op")
    case True
    from m have "(u = selectedUser s' op \<and> u \<noteq> 0)
        \<or> (schedulingMatrix s u op \<and> \<not> (u = selectedUser s op \<and> u \<noteq> 0))"
      unfolding True f(9) .
    then show ?thesis
      using assms(2) unfolding selection_consistent_def True by blast
  next
    case False
    then have "schedulingMatrix s u k" using m by (simp add: f(2))
    then show ?thesis
      using assms(2) False unfolding selection_consistent_def by (simp add: f(1))
  qed
qed

lemma select_all_consistent:
  "select_all rs now keccak users ops s = Inr s' \<Longrightarrow> selection_consistent s \<Longrightarrow>
     selection_consistent s'"
proof (induction ops arbitrary: s)
  case Nil
  then show ?case by simp
next
  case (Cons op ops)
  from Cons.prems(1) obtain s1 where
    one: "schedule_operator rs now keccak users s op = Inr s1" and
    rest: "select_all rs now keccak users ops s1 = Inr s'"
    by (auto simp: bind_result_Inr_iff)
  show ?case
    by (rule Cons.IH [OF rest]) (rule schedule_operator_consistent [OF one Cons.prems(2)])
qed

lemma total_allocated_Inr:
  "total_allocated s u ops t = Inr t' \<Longrightarrow>
     t' = t + (\<Sum>op\<leftarrow>ops. if schedulingMatrix s u op then allocatedRate s u op else 0)"
proof (induction ops arbitrary: t)
  case Nil
  then show ?case by simp
next
  case (Cons op ops)
  show ?case
  proof (cases "schedulingMatrix s u op")
    case True
    with Cons.prems obtain t1 where
      a: "checked_add t (allocatedRate s u op) = Inr t1" and
      r: "total_allocated s u ops t1 = Inr t'"
      by (auto simp: bind_result_Inr_iff)
    have "t1 = t + allocatedRate s u op"
      using a by (simp add: checked_add_def split: if_splits)
    then show ?thesis using Cons.IH [OF r] True by simp
  next
    case False
    with Cons.prems have "total_allocated s u ops t = Inr t'" by simp
    from Cons.IH [OF this] show ?thesis using False by simp
  qed
qed

lemma update_throughputs_step:
  assumes "update_throughputs (a # us) ops s = Inr s'"
  obtains nt nr where
    "throughput_step (throughput s a, throughputRemainder s a)
       (\<Sum>op\<leftarrow>ops. if schedulingMatrix s a op then allocatedRate s a op else 0) = Inr (nt, nr)"
    "update_throughputs us ops
       (s\<lparr>throughput := (throughput s) (a := nt),
          throughputRemainder := (throughputRemainder s) (a := nr)\<rparr>) = Inr s'"
proof -
  from assms obtain tot nt nr where
    t: "total_allocated s a ops 0 = Inr tot" and
    st: "throughput_step (throughput s a, throughputRemainder s a) tot = Inr (nt, nr)" and
    r: "update_throughputs us ops
       (s\<lparr>throughput := (throughput s) (a := nt),
          throughputRemainder := (throughputRemainder s) (a := nr)\<rparr>) = Inr s'"
    by (auto simp: bind_result_Inr_iff)
  have "tot = (\<Sum>op\<leftarrow>ops. if schedulingMatrix s a op then allocatedRate s a op else 0)"
    using total_allocated_Inr [OF t] by simp
  with st r that show ?thesis by simp
qed

lemma update_throughputs_frame:
  "update_throughputs us ops s = Inr s' \<Longrightarrow>
     selectedUser s' = selectedUser s \<and> schedulingMatrix s' = schedulingMatrix s
     \<and> allocatedRate s' = allocatedRate s \<and> serviceDuration s' = serviceDuration s
     \<and> statusReportingContract s' = statusReportingContract s
     \<and> registrationContract s' = registrationContract s
     \<and> (\<forall>u. u \<notin> set us \<longrightarrow> throughput s' u = throughput s u
           \<and> throughputRemainder s' u = throughputRemainder s u)"
proof (induction us arbitrary: s)
  case Nil
  then show ?case by simp
next
  case (Cons a us)
  from Cons.prems obtain nt nr where
    r: "update_throughputs us ops
       (s\<lparr>throughput := (throughput s) (a := nt),
          throughputRemainder := (throughputRemainder s) (a := nr)\<rparr>) = Inr s'"
    by (rule update_throughputs_step)
  from Cons.IH [OF r] show ?case by simp
qed

lemma update_throughputs_user:
  "update_throughputs us ops s = Inr s' \<Longrightarrow> distinct us \<Longrightarrow> u \<in> set us \<Longrightarrow>
     throughput_step (throughput s u, throughputRemainder s u)
       (\<Sum>op\<leftarrow>ops. if schedulingMatrix s u op then allocatedRate s u op else 0)
     = Inr (throughput s' u, throughputRemainder s' u)"
proof (induction us arbitrary: s)
  case Nil
  then show ?case by simp
next
  case (Cons a us)
  let ?s1 = "\<lambda>nt nr. s\<lparr>throughput := (throughput s) (a := nt),
          throughputRemainder := (throughputRemainder s) (a := nr)\<rparr>"
  from Cons.prems(1) obtain nt nr where
    st: "throughput_step (throughput s a, throughputRemainder s a)
       (\<Sum>op\<leftarrow>ops. if schedulingMatrix s a op then allocatedRate s a op else 0) = Inr (nt, nr)"
    and r: "update_throughputs us ops (?s1 nt nr) = Inr s'"
    by (rule update_throughputs_step)
  show ?case
  proof (cases "u = a")
    case True
    then have "u \<notin> set us" using Cons.prems(2) by simp
    then have "throughput s' u = nt" "throughputRemainder s' u = nr"
      using update_throughputs_frame [OF r] True by simp_all
    then show ?thesis using st unfolding True by simp
  next
    case False
    then have "u \<in> set us" "distinct us" using Cons.prems by simp_all
    from Cons.IH [OF r this(2) this(1)] show ?thesis using False by (simp cong: if_cong)
  qed
qed

lemma updateScheduling_Inr:
  assumes "updateScheduling rs now keccak users operators s = Inr (s', evs)"
  obtains s1 where
    "select_all rs now keccak users operators s = Inr s1"
    "update_throughputs users operators s1 = Inr s'"
    "evs = [Scheduled operators (getSelectedUsers s' operators)]"
  using assms by (auto simp: updateScheduling_def bind_result_Inr_iff)

text \<open>
  One round replaces the throughput state of a listed user by one \<open>throughput_step\<close>,
  the step that \<open>iterate_update\<close> repeats.
\<close>

lemma updateScheduling_throughput_step:
  assumes "updateScheduling rs now keccak users operators s = Inr (s', evs)"
    and "distinct users" and "u \<in> set users"
  shows "throughput_step (throughput s u, throughputRemainder s u)
           (\<Sum>op\<leftarrow>operators. if schedulingMatrix s' u op then allocatedRate s' u op else 0)
         = Inr (throughput s' u, throughputRemainder s' u)"
proof -
  from assms(1) obtain s1 where
    sel: "select_all rs now keccak users operators s = Inr s1" and
    upd: "update_throughputs users operators s1 = Inr s'"
    by (rule updateScheduling_Inr)
  show ?thesis
    using update_throughputs_user [OF upd assms(2,3)]
    by (simp add: select_all_frame [OF sel] update_throughputs_frame [OF upd] cong: if_cong)
qed

lemma updateScheduling_consistent:
  assumes "updateScheduling rs now keccak users operators s = Inr (s', evs)"
    and "selection_consistent s"
  shows "selection_consistent s'"
proof -
  from assms(1) obtain s1 where
    sel: "select_all rs now keccak users operators s = Inr s1" and
    upd: "update_throughputs users operators s1 = Inr s'"
    by (rule updateScheduling_Inr)
  have "selection_consistent s1"
    by (rule select_all_consistent [OF sel assms(2)])
  then show ?thesis
    by (simp add: selection_consistent_def update_throughputs_frame [OF upd])
qed

lemma updateScheduling_selection_result:
  assumes "updateScheduling rs now keccak users operators s = Inr (s', evs)"
    and "op \<in> set operators"
  shows "selection_result s rs users op s'"
proof -
  from assms(1) obtain s1 where
    sel: "select_all rs now keccak users operators s = Inr s1" and
    upd: "update_throughputs users operators s1 = Inr s'"
    by (rule updateScheduling_Inr)
  have "selection_result s rs users op s1"
    by (rule select_all_result [OF sel assms(2)])
  then show ?thesis
    by (rule selection_result_cong) (simp_all add: update_throughputs_frame [OF upd])
qed

lemma updateScheduling_marks:
  assumes "updateScheduling rs now keccak users operators s = Inr (s', evs)"
    and "selection_consistent s" and "op \<in> set operators"
  shows "schedulingMatrix s' u op \<longleftrightarrow> u \<noteq> 0 \<and> selectedUser s' op = u"
proof
  assume "schedulingMatrix s' u op"
  then show "u \<noteq> 0 \<and> selectedUser s' op = u"
    using updateScheduling_consistent [OF assms(1,2)]
    by (simp add: selection_consistent_def)
next
  assume "u \<noteq> 0 \<and> selectedUser s' op = u"
  then show "schedulingMatrix s' u op"
    using updateScheduling_selection_result [OF assms(1,3)]
    by (auto simp: selection_result_def)
qed

text \<open>
  Claim C2. After \<open>updateScheduling\<close>, for every operator of the list: either no user is
  selected and every candidate has priority 0, or the selected user is the first user, in
  the order of the user list, whose priority is maximal, and that priority is positive
  (a later user with the same priority does not replace it). A selected user (not the
  zero address) is marked in the scheduling matrix and its allocated rate is its latest
  reported rate at the operator. The priorities are those of the throughput before the
  round.
\<close>

theorem updateScheduling_selects_first_maximum:
  assumes "updateScheduling rs now keccak users operators s = Inr (s', evs)"
    and "op \<in> set operators"
  shows "(selectedUser s' op = 0 \<and> (\<forall>v \<in> set users. priority s rs v op = 0))
    \<or> (first_maximum (\<lambda>u. priority s rs u op) users (selectedUser s' op)
        \<and> (selectedUser s' op \<noteq> 0 \<longrightarrow>
              allocatedRate s' (selectedUser s' op) op
                = getLatestRate rs (selectedUser s' op) op
              \<and> schedulingMatrix s' (selectedUser s' op) op))"
  using updateScheduling_selection_result [OF assms]
  by (simp only: selection_result_def)

text \<open>
  Claim C9. \<open>updateScheduling\<close> preserves the selection invariant: a user marked for an
  operator in the scheduling matrix is the recorded selected user of that operator (and is
  not the zero address), so at most one user is marked per operator. The invariant holds
  in the initial storage.
\<close>

theorem selection_consistent_preserved:
  assumes "updateScheduling rs now keccak users operators s = Inr (s', evs)"
    and "selection_consistent s"
  shows "selection_consistent s'
    \<and> (\<forall>op u v. schedulingMatrix s' u op \<and> schedulingMatrix s' v op \<longrightarrow> u = v)
    \<and> selection_consistent init_sched_state"
proof -
  have c: "selection_consistent s'"
    by (rule updateScheduling_consistent [OF assms])
  have "\<forall>op u v. schedulingMatrix s' u op \<and> schedulingMatrix s' v op \<longrightarrow> u = v"
    using c unfolding selection_consistent_def by metis
  moreover have "selection_consistent init_sched_state"
    by (simp add: selection_consistent_def init_sched_state_def)
  ultimately show ?thesis using c by simp
qed

text \<open>
  Claim C5. In one round every user of the (duplicate-free) user list has its throughput
  state updated once, selected or not: with \<open>totalAllocated\<close> the sum of the allocated
  rates over the operators of the list that mark the user after the selection,
  \<open>numerator = (alpha - 1) * value + totalAllocated * PRECISION + remainder\<close>, the new
  value is \<open>numerator div alpha\<close> and the new remainder \<open>numerator mod alpha\<close>. The
  state of any other address is unchanged. When the selection invariant held before the
  round, the operators that mark a user are exactly those that selected it in this round.
\<close>

theorem throughput_updated_once:
  assumes "updateScheduling rs now keccak users operators s = Inr (s', evs)"
    and "distinct users"
  shows "(\<forall>u \<in> set users.
            let totalAllocated =
                  (\<Sum>op\<leftarrow>operators. if schedulingMatrix s' u op then allocatedRate s' u op else 0);
                numerator = (alpha - 1) * throughput s u + totalAllocated * PRECISION
                              + throughputRemainder s u
            in throughput s' u = numerator div alpha
               \<and> throughputRemainder s' u = numerator mod alpha)
    \<and> (\<forall>u. u \<notin> set users \<longrightarrow>
            throughput s' u = throughput s u
            \<and> throughputRemainder s' u = throughputRemainder s u)
    \<and> (selection_consistent s \<longrightarrow>
          (\<forall>op \<in> set operators. \<forall>u.
             schedulingMatrix s' u op \<longleftrightarrow> u \<noteq> 0 \<and> selectedUser s' op = u))"
proof -
  from assms(1) obtain s1 where
    sel: "select_all rs now keccak users operators s = Inr s1" and
    upd: "update_throughputs users operators s1 = Inr s'"
    by (rule updateScheduling_Inr)
  note f1 = select_all_frame [OF sel]
  note f2 = update_throughputs_frame [OF upd]
  have "throughput s' u =
          (9999 * throughput s u
           + (\<Sum>op\<leftarrow>operators. if schedulingMatrix s' u op then allocatedRate s' u op else 0)
               * 100000000
           + throughputRemainder s u) div 10000
        \<and> throughputRemainder s' u =
          (9999 * throughput s u
           + (\<Sum>op\<leftarrow>operators. if schedulingMatrix s' u op then allocatedRate s' u op else 0)
               * 100000000
           + throughputRemainder s u) mod 10000"
    if "u \<in> set users" for u
    using throughput_step_Inr [OF update_throughputs_user [OF upd assms(2) that]]
    by (simp add: f1 f2 cong: if_cong)
  moreover have "schedulingMatrix s' u op \<longleftrightarrow> u \<noteq> 0 \<and> selectedUser s' op = u"
    if "selection_consistent s" "op \<in> set operators" for u op
    by (rule updateScheduling_marks [OF assms(1) that])
  ultimately show ?thesis
    using f1 f2 by (simp add: Let_def alpha_def PRECISION_def)
qed

subsection \<open>Example rounds, empty lists\<close>

lemma example_rates:
  "getLatestRate example_reports 1 9 = 14430"
  "getLatestRate example_reports 2 9 = 28860"
  "getLatestRate example_reports 3 9 = 28860"
  "getLatestRate example_reports 1 10 = 1443"
  "getLatestRate example_reports 2 10 = 0"
  "getLatestRate example_reports 3 10 = 14430"
  unfolding example_reports_def submit_all_latest
  by (simp_all add: rate_examples validCSI_def getLatestRate_def init_report_state_def)

lemmas example_eval =
  example_after_def example_round_def example_sched_def example_idle_round_def
  commit_def emitted_def
  updateScheduling_def schedule_operator_def clear_selection_def
  mark_selection_eq sched_getLatestRate_def compute_priority_def example_rates
  setStatusReportingContract_def init_sched_state_def throughput_step_def
  getSelectedUsers_def alpha_def
  checked_add_def checked_mul_def checked_div_def checked_mod_def UINT_MAX_def
  bind_result_simps Let_def

lemma example_round_returns:
  "example_round = Inr (example_after, [Scheduled [9, 10] [2, 3]])"
  by (simp add: example_eval)

lemma example_after_fields:
  "selectedUser example_after 9 = 2"
  "selectedUser example_after 10 = 3"
  "schedulingMatrix example_after 2 9"
  "schedulingMatrix example_after 3 10"
  "\<not> schedulingMatrix example_after 1 9"
  "allocatedRate example_after 2 9 = 28860"
  "allocatedRate example_after 3 10 = 14430"
  "serviceDuration example_after 2 9 = 42"
  "throughput example_after 1 = 0"
  "throughput example_after 2 = 288600000"
  "throughput example_after 3 = 144300000"
  "throughputRemainder example_after 2 = 0"
  by (simp_all add: example_eval)

lemma example_priorities:
  "priority example_sched example_reports 1 9 = 1443000000000"
  "priority example_sched example_reports 2 9 = 2886000000000"
  "priority example_sched example_reports 3 9 = 2886000000000"
  by (simp_all add: priority_def example_rates example_sched_def
      setStatusReportingContract_def init_sched_state_def)

lemma example_idle_round_returns:
  "example_idle_round = Inr (commit example_after example_idle_round, [Scheduled [] []])"
  by (simp add: example_eval)

lemma example_idle_fields:
  "throughput (commit example_after example_idle_round) 2 = 288571140"
  "throughput (commit example_after example_idle_round) 3 = 144285570"
  by (simp_all add: example_eval)

lemma throughput_step_idle:
  "r < 10000 \<Longrightarrow> throughput_step (0, r) 0 = Inr (0, r)"
  by (simp add: throughput_step_def bind_result_simps checked_add_def checked_mul_def
      checked_div_def checked_mod_def alpha_def UINT_MAX_def)

lemma throughput_step_fixed:
  assumes "throughput_step (v, r) 0 = Inr (v, r)"
  shows "v = 0 \<and> r < 10000"
proof -
  define n where "n = 9999 * v + 0 * 100000000 + r"
  have v: "v = n div 10000" and r: "r = n mod 10000"
    using throughput_step_Inr [OF assms] unfolding n_def by blast+
  have "10000 * (n div 10000) + n mod 10000 = n" by simp
  then have e: "10000 * v + r = n" by (simp only: v [symmetric] r [symmetric])
  have "v = 0" using e by (simp add: n_def)
  moreover have "n mod 10000 < 10000" by simp
  then have "r < 10000" by (simp only: r [symmetric])
  ultimately show ?thesis by simp
qed

lemma update_throughputs_idle:
  "\<forall>u \<in> set us. throughput s u = 0 \<and> throughputRemainder s u < 10000 \<Longrightarrow>
     update_throughputs us [] s = Inr s"
proof (induction us)
  case Nil
  show ?case by simp
next
  case (Cons a us)
  have z: "throughput s a = 0" and r: "throughputRemainder s a < 10000"
    using Cons.prems by simp_all
  have st: "throughput_step (0, throughputRemainder s a) 0 = Inr (0, throughputRemainder s a)"
    by (rule throughput_step_idle [OF r])
  have same: "s\<lparr>throughput := (throughput s) (a := 0),
              throughputRemainder := (throughputRemainder s) (a := throughputRemainder s a)\<rparr> = s"
    using z by (simp add: fun_upd_idem)
  have step: "update_throughputs (a # us) [] s =
      update_throughputs us []
        (s\<lparr>throughput := (throughput s) (a := 0),
           throughputRemainder := (throughputRemainder s) (a := throughputRemainder s a)\<rparr>)"
    by (simp add: z st bind_result_simps)
  have "update_throughputs us [] s = Inr s" using Cons by simp
  then show ?case unfolding step same .
qed

lemma schedule_operator_no_users:
  "schedule_operator rs now keccak [] s op = Inr (clear_selection s op)"
  by (simp add: schedule_operator_def bind_result_simps mark_selection_eq)

lemma select_all_no_users:
  "\<exists>s'. select_all rs now keccak [] ops s = Inr s'"
  by (induction ops arbitrary: s) (simp_all add: schedule_operator_no_users bind_result_simps)

lemma map_constant: "\<forall>x \<in> set xs. f x = c \<Longrightarrow> map f xs = replicate (length xs) c"
  by (induction xs) simp_all

lemma updateScheduling_no_users:
  "\<exists>s'. updateScheduling rs now keccak [] operators s
          = Inr (s', [Scheduled operators (replicate (length operators) 0)])
     \<and> throughput s' = throughput s \<and> throughputRemainder s' = throughputRemainder s
     \<and> (\<forall>op \<in> set operators. selectedUser s' op = 0
           \<and> (selection_consistent s \<longrightarrow> (\<forall>u. \<not> schedulingMatrix s' u op)))"
proof -
  obtain s' where sel: "select_all rs now keccak [] operators s = Inr s'"
    using select_all_no_users by blast
  have z: "selectedUser s' op = 0" if "op \<in> set operators" for op
    using select_all_result [OF sel that] by (simp add: selection_result_def)
  have m: "\<not> schedulingMatrix s' u op" if "op \<in> set operators" "selection_consistent s" for u op
  proof
    assume "schedulingMatrix s' u op"
    then have "u \<noteq> 0 \<and> selectedUser s' op = u"
      using select_all_consistent [OF sel that(2)] by (simp add: selection_consistent_def)
    then show False using z [OF that(1)] by simp
  qed
  have "getSelectedUsers s' operators = replicate (length operators) 0"
    unfolding getSelectedUsers_def by (rule map_constant) (simp add: z)
  then have "updateScheduling rs now keccak [] operators s
      = Inr (s', [Scheduled operators (replicate (length operators) 0)])"
    by (simp add: updateScheduling_def sel bind_result_simps)
  then show ?thesis
    using select_all_frame [OF sel] z m by blast
qed

lemma updateScheduling_no_operators:
  assumes "updateScheduling rs now keccak users [] s = Inr (s', evs)"
  shows "selectedUser s' = selectedUser s" and "schedulingMatrix s' = schedulingMatrix s"
    and "allocatedRate s' = allocatedRate s" and "serviceDuration s' = serviceDuration s"
    and "evs = [Scheduled [] []]"
    and "distinct users \<Longrightarrow> u \<in> set users \<Longrightarrow>
           throughput_step (throughput s u, throughputRemainder s u) 0
             = Inr (throughput s' u, throughputRemainder s' u)"
proof -
  from assms have upd: "update_throughputs users [] s = Inr s'"
    and ev: "evs = [Scheduled [] (getSelectedUsers s' [])]"
    by (auto simp: updateScheduling_def bind_result_Inr_iff)
  note f = update_throughputs_frame [OF upd]
  show "selectedUser s' = selectedUser s" "schedulingMatrix s' = schedulingMatrix s"
    "allocatedRate s' = allocatedRate s" "serviceDuration s' = serviceDuration s"
    using f by simp_all
  show "evs = [Scheduled [] []]" using ev by (simp add: getSelectedUsers_def)
  show "distinct users \<Longrightarrow> u \<in> set users \<Longrightarrow>
           throughput_step (throughput s u, throughputRemainder s u) 0
             = Inr (throughput s' u, throughputRemainder s' u)"
    using update_throughputs_user [OF upd, of u] by simp
qed

text \<open>
  Claim C4, as amended. With an empty operator list \<open>updateScheduling\<close> changes no
  selection state (selected users, scheduling matrix, allocated rates, service durations)
  and emits \<open>Scheduled([], [])\<close>, but it still applies the throughput update with
  \<open>totalAllocated = 0\<close> to every user. It leaves the storage unchanged when every
  user of the list has throughput 0 and a remainder below \<open>alpha\<close>, and with a
  duplicate-free user list in no other case. With an empty user list it returns,
  the selected user of every operator of the list is the zero address afterwards, no user
  is marked for such an operator when the selection invariant held before, and no
  throughput changes.
\<close>

theorem updateScheduling_empty_lists:
  "(updateScheduling rs now keccak users [] s = Inr (s', evs) \<longrightarrow>
      selectedUser s' = selectedUser s \<and> schedulingMatrix s' = schedulingMatrix s
      \<and> allocatedRate s' = allocatedRate s \<and> serviceDuration s' = serviceDuration s
      \<and> evs = [Scheduled [] []]
      \<and> (distinct users \<longrightarrow>
           (\<forall>u \<in> set users.
              throughput_step (throughput s u, throughputRemainder s u) 0
                = Inr (throughput s' u, throughputRemainder s' u))))
   \<and> ((\<forall>u \<in> set users. throughput s u = 0 \<and> throughputRemainder s u < alpha) \<longrightarrow>
        updateScheduling rs now keccak users [] s = Inr (s, [Scheduled [] []]))
   \<and> (distinct users \<and> updateScheduling rs now keccak users [] s = Inr (s, evs) \<longrightarrow>
        (\<forall>u \<in> set users. throughput s u = 0 \<and> throughputRemainder s u < alpha))
   \<and> (\<exists>s''. updateScheduling rs now keccak [] operators s
                = Inr (s'', [Scheduled operators (replicate (length operators) 0)])
          \<and> throughput s'' = throughput s \<and> throughputRemainder s'' = throughputRemainder s
          \<and> (\<forall>op \<in> set operators. selectedUser s'' op = 0
                \<and> (selection_consistent s \<longrightarrow> (\<forall>u. \<not> schedulingMatrix s'' u op))))"
proof (intro conjI impI)
  assume a: "updateScheduling rs now keccak users [] s = Inr (s', evs)"
  note f = updateScheduling_no_operators [OF a]
  show "selectedUser s' = selectedUser s" "schedulingMatrix s' = schedulingMatrix s"
    "allocatedRate s' = allocatedRate s" "serviceDuration s' = serviceDuration s"
    "evs = [Scheduled [] []]"
    by (rule f)+
  show "\<forall>u \<in> set users.
          throughput_step (throughput s u, throughputRemainder s u) 0
            = Inr (throughput s' u, throughputRemainder s' u)"
    if "distinct users"
    using f(6) that by blast
next
  assume "\<forall>u \<in> set users. throughput s u = 0 \<and> throughputRemainder s u < alpha"
  then have "update_throughputs users [] s = Inr s"
    unfolding alpha_def by (rule update_throughputs_idle)
  then show "updateScheduling rs now keccak users [] s = Inr (s, [Scheduled [] []])"
    by (simp add: updateScheduling_def bind_result_simps getSelectedUsers_def)
next
  assume b: "distinct users \<and> updateScheduling rs now keccak users [] s = Inr (s, evs)"
  show "\<forall>u \<in> set users. throughput s u = 0 \<and> throughputRemainder s u < alpha"
  proof
    fix u
    assume "u \<in> set users"
    then have "throughput_step (throughput s u, throughputRemainder s u) 0
        = Inr (throughput s u, throughputRemainder s u)"
      using b updateScheduling_no_operators(6) [of rs now keccak users s s evs u] by blast
    then show "throughput s u = 0 \<and> throughputRemainder s u < alpha"
      unfolding alpha_def by (rule throughput_step_fixed)
  qed
next
  show "\<exists>s''. updateScheduling rs now keccak [] operators s
                = Inr (s'', [Scheduled operators (replicate (length operators) 0)])
          \<and> throughput s'' = throughput s \<and> throughputRemainder s'' = throughputRemainder s
          \<and> (\<forall>op \<in> set operators. selectedUser s'' op = 0
                \<and> (selection_consistent s \<longrightarrow> (\<forall>u. \<not> schedulingMatrix s'' u op)))"
    by (rule updateScheduling_no_users)
qed

lemma example_sched_consistent: "selection_consistent example_sched"
  by (simp add: selection_consistent_def example_sched_def setStatusReportingContract_def
      init_sched_state_def)

lemma example_round_run:
  "updateScheduling example_reports 1000 (\<lambda>now op. 7) [1, 2, 3] [9, 10] example_sched
     = Inr (example_after, [Scheduled [9, 10] [2, 3]])"
  using example_round_returns by (simp only: example_round_def)

lemma example_after_consistent: "selection_consistent example_after"
  by (rule updateScheduling_consistent [OF example_round_run example_sched_consistent])

lemma example_second_round_returns:
  "example_second_round
     = Inr (commit example_after example_second_round, [Scheduled [9, 10] [1, 1]])"
  by (simp add: example_second_round_def example_eval)

lemma example_second_round_fields:
  "throughput (commit example_after example_second_round) 1 = 158730000"
  "throughput (commit example_after example_second_round) 2 = 288571140"
  "throughput (commit example_after example_second_round) 3 = 144285570"
  "throughputRemainder (commit example_after example_second_round) 1 = 0"
  "allocatedRate (commit example_after example_second_round) 1 9 = 14430"
  "allocatedRate (commit example_after example_second_round) 1 10 = 1443"
  "\<not> schedulingMatrix (commit example_after example_second_round) 2 9"
  by (simp_all add: example_second_round_def example_eval)

theorem updateScheduling_selects_first_maximum_witness:
  "example_round = Inr (example_after, [Scheduled [9, 10] [2, 3]])
   \<and> selectedUser example_after 9 = 2
   \<and> first_maximum (\<lambda>u. priority example_sched example_reports u 9) [1, 2, 3] 2
   \<and> priority example_sched example_reports 3 9 = priority example_sched example_reports 2 9
   \<and> allocatedRate example_after 2 9 = getLatestRate example_reports 2 9
   \<and> schedulingMatrix example_after 2 9"
proof -
  have mem: "9 \<in> set [9, 10 :: address]" by simp
  show ?thesis
    using updateScheduling_selects_first_maximum [OF example_round_run mem]
      example_round_returns example_after_fields example_priorities example_rates
    by simp
qed

theorem selection_consistent_preserved_witness:
  "selection_consistent example_sched
   \<and> example_round = Inr (example_after, [Scheduled [9, 10] [2, 3]])
   \<and> selection_consistent example_after
   \<and> schedulingMatrix example_after 2 9 \<and> selectedUser example_after 9 = 2"
  using selection_consistent_preserved [OF example_round_run example_sched_consistent]
    example_round_returns example_after_fields example_sched_consistent
  by simp

theorem throughput_updated_once_witness:
  "distinct [1, 2, 3 :: address]
   \<and> example_second_round
       = Inr (commit example_after example_second_round, [Scheduled [9, 10] [1, 1]])
   \<and> throughput example_after 1 = 0
   \<and> throughput (commit example_after example_second_round) 1
       = (9999 * 0 + (14430 + 1443) * 100000000 + 0) div 10000
   \<and> throughput example_after 2 = 288600000
   \<and> throughput (commit example_after example_second_round) 2
       = (9999 * 288600000 + 0 * 100000000 + 0) div 10000"
proof -
  have d: "distinct [1, 2, 3 :: address]" by simp
  have run: "updateScheduling example_reports 1001 (\<lambda>now op. 7) [1, 2, 3] [9, 10] example_after
     = Inr (commit example_after example_second_round, [Scheduled [9, 10] [1, 1]])"
    using example_second_round_returns by (simp only: example_second_round_def)
  show ?thesis
    using throughput_updated_once [OF run d] example_second_round_returns
      example_second_round_fields example_after_fields
    by simp
qed

theorem updateScheduling_empty_lists_witness:
  "updateScheduling example_reports 1000 (\<lambda>now op. 7) [1, 2, 3] [] example_sched
     = Inr (example_sched, [Scheduled [] []])
   \<and> updateScheduling example_reports 1000 (\<lambda>now op. 7) [1, 2, 3] [] example_drained
     = Inr (example_drained, [Scheduled [] []])
   \<and> distinct [1, 2, 3 :: address]
   \<and> throughput example_drained 2 = 0 \<and> throughputRemainder example_drained 2 = 9999
   \<and> (\<exists>s''. updateScheduling example_reports 1001 (\<lambda>now op. 7) [] [9, 10] example_after
               = Inr (s'', [Scheduled [9, 10] [0, 0]])
         \<and> selectedUser s'' 9 = 0 \<and> selectedUser s'' 10 = 0
         \<and> \<not> schedulingMatrix s'' 2 9
         \<and> throughput s'' = throughput example_after)"
proof -
  have z: "\<forall>u \<in> set [1, 2, 3]. throughput example_sched u = 0
      \<and> throughputRemainder example_sched u < alpha"
    by (simp add: example_sched_def setStatusReportingContract_def init_sched_state_def
        alpha_def)
  have d: "\<forall>u \<in> set [1, 2, 3]. throughput example_drained u = 0
      \<and> throughputRemainder example_drained u < alpha"
    by (simp add: example_drained_def example_sched_def setStatusReportingContract_def
        init_sched_state_def alpha_def)
  have f: "throughput example_drained 2 = 0" "throughputRemainder example_drained 2 = 9999"
    by (simp_all add: example_drained_def example_sched_def setStatusReportingContract_def
        init_sched_state_def)
  have two: "replicate (length [9, 10 :: address]) (0 :: address) = [0, 0]" by simp
  have a: "updateScheduling example_reports 1000 (\<lambda>now op. 7) [1, 2, 3] [] example_sched
     = Inr (example_sched, [Scheduled [] []])"
    using updateScheduling_empty_lists
        [of example_reports 1000 "\<lambda>now op. 7" "[1, 2, 3]" example_sched example_sched "[]" "[]"]
      z by blast
  have b: "updateScheduling example_reports 1000 (\<lambda>now op. 7) [1, 2, 3] [] example_drained
     = Inr (example_drained, [Scheduled [] []])"
    using updateScheduling_empty_lists
        [of example_reports 1000 "\<lambda>now op. 7" "[1, 2, 3]" example_drained example_drained
          "[]" "[]"]
      d by blast
  have c: "\<exists>s''. updateScheduling example_reports 1001 (\<lambda>now op. 7) [] [9, 10] example_after
               = Inr (s'', [Scheduled [9, 10] [0, 0]])
         \<and> selectedUser s'' 9 = 0 \<and> selectedUser s'' 10 = 0
         \<and> \<not> schedulingMatrix s'' 2 9
         \<and> throughput s'' = throughput example_after"
    using updateScheduling_empty_lists
        [of example_reports 1001 "\<lambda>now op. 7" "[]" example_after example_after "[]" "[9, 10]"]
      example_after_consistent
    unfolding two by auto
  show ?thesis using a b c f by simp
qed

text \<open>
  The first half of C4 as stated fails: after the round \<open>example_round\<close> (three users,
  two operators, from the initial storage), a round with the same users and an empty
  operator list lowers the throughput of user 2 from 288600000 to 288571140.
\<close>

theorem updateScheduling_empty_operators_counterexample:
  "example_idle_round = Inr (commit example_after example_idle_round, [Scheduled [] []])
   \<and> throughput example_after 2 = 288600000
   \<and> throughput (commit example_after example_idle_round) 2 = 288571140
   \<and> commit example_after example_idle_round \<noteq> example_after"
proof -
  have "throughput (commit example_after example_idle_round) 2 \<noteq> throughput example_after 2"
    by (simp add: example_idle_fields example_after_fields)
  then have "commit example_after example_idle_round \<noteq> example_after" by auto
  then show ?thesis
    using example_idle_round_returns example_idle_fields example_after_fields by simp
qed

section \<open>Properties of the settlement contract\<close>

lemma calculateCost_Inr:
  "calculateCost st op d b = Inr c \<Longrightarrow> c = rate_of st op * d * b"
  by (auto simp: calculateCost_def rate_of_def Let_def bind_result_Inr_iff
      checked_mul_def split: if_splits)

lemma calculateCost_ok:
  "rate_of st op * d * b \<le> UINT_MAX \<Longrightarrow> b \<noteq> 0 \<Longrightarrow>
     calculateCost st op d b = Inr (rate_of st op * d * b)"
proof -
  assume a: "rate_of st op * d * b \<le> UINT_MAX" and b: "b \<noteq> 0"
  have le: "rate_of st op * d \<le> rate_of st op * d * b" using b by simp
  have "rate_of st op * d \<le> UINT_MAX" by (rule le_trans [OF le a])
  then show ?thesis
    using a by (simp add: calculateCost_def rate_of_def Let_def bind_result_simps checked_mul_def)
qed

lemma getServiceParameters_eq:
  "schedulingContract st \<noteq> 0 \<Longrightarrow>
     getServiceParameters st sch u op = (duration_of sch u op, 1000)"
  by (simp add: getServiceParameters_def duration_of_def getServiceDuration_def Let_def)

lemma settle_operators_Inr:
  "settle_operators st sch u ops = Inr evs \<Longrightarrow>
     evs = concat (map (pair_events st sch u) ops)"
proof (induction ops arbitrary: evs)
  case Nil
  then show ?case by simp
next
  case (Cons op ops)
  from Cons.prems have sc: "schedulingContract st \<noteq> 0"
    by (auto simp: bind_result_Inr_iff settle_getSchedulingMatrix_def split: if_splits)
  show ?case
  proof (cases "schedulingMatrix sch u op")
    case True
    with Cons.prems sc obtain cost rest where
      c: "calculateCost st op (duration_of sch u op) 1000 = Inr cost" and
      r: "settle_operators st sch u ops = Inr rest" and
      e: "evs = ServiceNotified u op (duration_of sch u op) 1000
                 # PaymentProcessed u op cost # rest"
      by (auto simp: bind_result_Inr_iff settle_getSchedulingMatrix_def
          getSchedulingMatrix_def getServiceParameters_eq settleService_def notify_def)
    show ?thesis
      using Cons.IH [OF r] calculateCost_Inr [OF c] True e by (simp add: pair_events_def)
  next
    case False
    with Cons.prems sc have "settle_operators st sch u ops = Inr evs"
      by (simp add: bind_result_simps settle_getSchedulingMatrix_def getSchedulingMatrix_def)
    from Cons.IH [OF this] show ?thesis using False by (simp add: pair_events_def)
  qed
qed

lemma settle_users_Inr:
  "settle_users st sch us ops = Inr evs \<Longrightarrow>
     evs = concat (map (\<lambda>u. concat (map (pair_events st sch u) ops)) us)"
proof (induction us arbitrary: evs)
  case Nil
  then show ?case by simp
next
  case (Cons u us)
  from Cons.prems obtain e1 rest where
    a: "settle_operators st sch u ops = Inr e1" and
    r: "settle_users st sch us ops = Inr rest" and
    e: "evs = e1 @ rest"
    by (auto simp: bind_result_Inr_iff)
  show ?case
    using settle_operators_Inr [OF a] Cons.IH [OF r] e by simp
qed

lemma settle_operators_ok:
  "schedulingContract st \<noteq> 0 \<Longrightarrow>
   \<forall>op \<in> set ops. schedulingMatrix sch u op \<longrightarrow>
      rate_of st op * duration_of sch u op * 1000 \<le> UINT_MAX \<Longrightarrow>
   \<exists>evs. settle_operators st sch u ops = Inr evs"
proof (induction ops)
  case Nil
  show ?case by simp
next
  case (Cons op ops)
  then obtain rest where r: "settle_operators st sch u ops = Inr rest" by auto
  show ?case
  proof (cases "schedulingMatrix sch u op")
    case True
    then have "rate_of st op * duration_of sch u op * 1000 \<le> UINT_MAX"
      using Cons.prems(2) by simp
    then have "calculateCost st op (duration_of sch u op) 1000
        = Inr (rate_of st op * duration_of sch u op * 1000)"
      by (rule calculateCost_ok) simp
    then show ?thesis
      using Cons.prems(1) True r
      by (simp add: bind_result_simps settle_getSchedulingMatrix_def getSchedulingMatrix_def
          getServiceParameters_eq settleService_def)
  next
    case False
    then show ?thesis
      using Cons.prems(1) r
      by (simp add: bind_result_simps settle_getSchedulingMatrix_def getSchedulingMatrix_def)
  qed
qed

lemma settle_users_ok:
  "schedulingContract st \<noteq> 0 \<Longrightarrow>
   \<forall>u \<in> set us. \<forall>op \<in> set ops. schedulingMatrix sch u op \<longrightarrow>
      rate_of st op * duration_of sch u op * 1000 \<le> UINT_MAX \<Longrightarrow>
   \<exists>evs. settle_users st sch us ops = Inr evs"
proof (induction us)
  case Nil
  show ?case by simp
next
  case (Cons u us)
  then obtain rest where r: "settle_users st sch us ops = Inr rest" by auto
  obtain e1 where a: "settle_operators st sch u ops = Inr e1"
    using settle_operators_ok [of st ops sch u] Cons.prems by auto
  show ?case by (simp add: a r bind_result_simps)
qed

lemma pair_events_pair:
  "e \<in> set (pair_events st sch u op) \<Longrightarrow> event_pair e = (u, op) \<and> schedulingMatrix sch u op"
  by (auto simp: pair_events_def split: if_splits)

lemma filter_concat_map_one:
  "distinct xs \<Longrightarrow> x \<in> set xs \<Longrightarrow> \<forall>y \<in> set xs. y \<noteq> x \<longrightarrow> filter P (f y) = [] \<Longrightarrow>
     filter P (concat (map f xs)) = filter P (f x)"
proof (induction xs)
  case Nil
  then show ?case by simp
next
  case (Cons a xs)
  show ?case
  proof (cases "a = x")
    case True
    then have "x \<notin> set xs" using Cons.prems(1) by simp
    then have "\<forall>y \<in> set xs. filter P (f y) = []" using Cons.prems(3) by auto
    then have "filter P (concat (map f xs)) = []"
      by (induction xs) simp_all
    then show ?thesis using True by simp
  next
    case False
    then have "filter P (f a) = []" using Cons.prems(3) by simp
    moreover have "filter P (concat (map f xs)) = filter P (f x)"
      using Cons False by simp
    ultimately show ?thesis by simp
  qed
qed

lemma filter_pair_events:
  "filter (\<lambda>e. event_pair e = (u, op)) (pair_events st sch u' op')
     = (if u' = u \<and> op' = op then pair_events st sch u op else [])"
  by (auto simp: pair_events_def)

lemma filter_all_events:
  assumes "distinct users" and "distinct operators"
    and "u \<in> set users" and "op \<in> set operators"
  shows "filter (\<lambda>e. event_pair e = (u, op))
           (concat (map (\<lambda>u'. concat (map (pair_events st sch u') operators)) users))
         = pair_events st sch u op"
proof -
  let ?P = "\<lambda>e. event_pair e = (u, op)"
  have inner: "filter ?P (concat (map (pair_events st sch u') operators))
      = filter ?P (pair_events st sch u' op)" for u'
    by (rule filter_concat_map_one [OF assms(2,4)]) (simp add: filter_pair_events)
  have "filter ?P (concat (map (\<lambda>u'. concat (map (pair_events st sch u') operators)) users))
      = filter ?P (concat (map (pair_events st sch u) operators))"
    by (rule filter_concat_map_one [OF assms(1,3)]) (simp add: inner filter_pair_events)
  then show ?thesis by (simp add: inner filter_pair_events)
qed

text \<open>
  Claim C6. When \<open>processScheduledTransactions\<close> returns, the events it emitted are,
  for the users and the operators of the registration lists in order, the two events of
  each pair marked in the scheduling matrix: one \<open>ServiceNotified\<close> with bandwidth 1000
  and the duration of the scheduling contract (50 when that is 0), then one
  \<open>PaymentProcessed\<close> with cost \<open>rate * duration * 1000\<close>, the rate being 87 when the
  operator has none configured. No event is about a pair that is not marked; with
  duplicate-free lists the events about a marked pair are exactly these two. The call
  returns when the scheduling contract address is set and no cost overflows.
\<close>

theorem settlement_events:
  "(processScheduledTransactions st sch users operators = Inr evs \<longrightarrow>
      evs = concat (map (\<lambda>u. concat (map (pair_events st sch u) operators)) users)
      \<and> (\<forall>e \<in> set evs. schedulingMatrix sch (fst (event_pair e)) (snd (event_pair e)))
      \<and> (distinct users \<and> distinct operators \<longrightarrow>
           (\<forall>u \<in> set users. \<forall>op \<in> set operators.
              filter (\<lambda>e. event_pair e = (u, op)) evs =
                (if schedulingMatrix sch u op then
                   [ServiceNotified u op
                      (if serviceDuration sch u op = 0 then 50 else serviceDuration sch u op) 1000,
                    PaymentProcessed u op
                      ((if operatorRates st op = 0 then 87 else operatorRates st op)
                       * (if serviceDuration sch u op = 0 then 50 else serviceDuration sch u op)
                       * 1000)]
                 else []))))
   \<and> (schedulingContract st \<noteq> 0
        \<and> (\<forall>u \<in> set users. \<forall>op \<in> set operators. schedulingMatrix sch u op \<longrightarrow>
              rate_of st op * duration_of sch u op * 1000 \<le> UINT_MAX) \<longrightarrow>
        (\<exists>evs'. processScheduledTransactions st sch users operators = Inr evs'))"
proof (intro conjI impI)
  assume a: "processScheduledTransactions st sch users operators = Inr evs"
  then show e: "evs = concat (map (\<lambda>u. concat (map (pair_events st sch u) operators)) users)"
    unfolding processScheduledTransactions_def by (rule settle_users_Inr)
  show "\<forall>e \<in> set evs. schedulingMatrix sch (fst (event_pair e)) (snd (event_pair e))"
    unfolding e using pair_events_pair by fastforce
  show "\<forall>u \<in> set users. \<forall>op \<in> set operators.
          filter (\<lambda>e. event_pair e = (u, op)) evs =
            (if schedulingMatrix sch u op then
               [ServiceNotified u op
                  (if serviceDuration sch u op = 0 then 50 else serviceDuration sch u op) 1000,
                PaymentProcessed u op
                  ((if operatorRates st op = 0 then 87 else operatorRates st op)
                   * (if serviceDuration sch u op = 0 then 50 else serviceDuration sch u op)
                   * 1000)]
             else [])"
    if "distinct users \<and> distinct operators"
  proof (intro ballI)
    fix u op
    assume "u \<in> set users" and "op \<in> set operators"
    then have "filter (\<lambda>e. event_pair e = (u, op)) evs = pair_events st sch u op"
      unfolding e using that by (intro filter_all_events) simp_all
    then show "filter (\<lambda>e. event_pair e = (u, op)) evs =
            (if schedulingMatrix sch u op then
               [ServiceNotified u op
                  (if serviceDuration sch u op = 0 then 50 else serviceDuration sch u op) 1000,
                PaymentProcessed u op
                  ((if operatorRates st op = 0 then 87 else operatorRates st op)
                   * (if serviceDuration sch u op = 0 then 50 else serviceDuration sch u op)
                   * 1000)]
             else [])"
      by (simp add: pair_events_def duration_of_def rate_of_def)
  qed
next
  assume "schedulingContract st \<noteq> 0
        \<and> (\<forall>u \<in> set users. \<forall>op \<in> set operators. schedulingMatrix sch u op \<longrightarrow>
              rate_of st op * duration_of sch u op * 1000 \<le> UINT_MAX)"
  then show "\<exists>evs'. processScheduledTransactions st sch users operators = Inr evs'"
    unfolding processScheduledTransactions_def using settle_users_ok by blast
qed

lemmas settle_eval =
  processScheduledTransactions_def settle_getSchedulingMatrix_def getSchedulingMatrix_def
  getServiceParameters_def getServiceDuration_def settleService_def calculateCost_def
  notify_def bind_result_simps checked_mul_def UINT_MAX_def Let_def

lemma example_marked_settlement:
  "processScheduledTransactions example_settle example_marked [1, 2, 3] [9, 10]
     = Inr [ServiceNotified 2 9 50 1000, PaymentProcessed 2 9 4350000]"
  by (simp add: settle_eval example_settle_def setOperatorRate_def setSchedulingContract_def
      init_settle_state_def example_marked_def init_sched_state_def)

theorem settlement_events_witness:
  "processScheduledTransactions example_settle example_marked [1, 2, 3] [9, 10]
     = Inr [ServiceNotified 2 9 50 1000, PaymentProcessed 2 9 (87 * 50 * 1000)]
   \<and> distinct [1, 2, 3 :: address] \<and> distinct [9, 10 :: address]
   \<and> filter (\<lambda>e. event_pair e = (2, 9))
        [ServiceNotified 2 9 50 1000, PaymentProcessed 2 9 (87 * 50 * 1000)]
       = [ServiceNotified 2 9 50 1000, PaymentProcessed 2 9 (87 * 50 * 1000)]
   \<and> filter (\<lambda>e. event_pair e = (3, 10))
        [ServiceNotified 2 9 50 1000, PaymentProcessed 2 9 (87 * 50 * 1000)] = []"
proof -
  let ?evs = "[ServiceNotified 2 9 50 1000, PaymentProcessed 2 9 4350000]"
  let ?exp = "\<lambda>u op. if schedulingMatrix example_marked u op then
       [ServiceNotified u op
          (if serviceDuration example_marked u op = 0 then 50
           else serviceDuration example_marked u op) 1000,
        PaymentProcessed u op
          ((if operatorRates example_settle op = 0 then 87 else operatorRates example_settle op)
           * (if serviceDuration example_marked u op = 0 then 50
              else serviceDuration example_marked u op)
           * 1000)]
     else []"
  have d: "distinct [1, 2, 3 :: address] \<and> distinct [9, 10 :: address]" by simp
  have all: "\<forall>u \<in> set [1, 2, 3]. \<forall>op \<in> set [9, 10].
      filter (\<lambda>e. event_pair e = (u, op)) ?evs = ?exp u op"
    using settlement_events [of example_settle example_marked "[1, 2, 3]" "[9, 10]" ?evs]
      example_marked_settlement d
    by blast
  have "filter (\<lambda>e. event_pair e = (2, 9)) ?evs = ?exp 2 9"
    and "filter (\<lambda>e. event_pair e = (3, 10)) ?evs = ?exp 3 10"
    using all by simp_all
  then show ?thesis
    using example_marked_settlement d
    by (simp add: example_marked_def example_settle_def setOperatorRate_def setSchedulingContract_def
      init_settle_state_def init_sched_state_def)
qed

lemma example_after_settlement:
  "processScheduledTransactions example_settle example_after [1, 2, 3] [9, 10]
     = Inr [ServiceNotified 2 9 42 1000, PaymentProcessed 2 9 3654000,
            ServiceNotified 3 10 42 1000, PaymentProcessed 3 10 126000]"
  by (simp add: settle_eval example_settle_def setOperatorRate_def setSchedulingContract_def
      init_settle_state_def example_eval)

section \<open>Properties of the registration contract\<close>

text \<open>
  The lists that \<open>getAllUsers\<close> and \<open>getAllOperators\<close> return have no duplicates,
  whatever registrations were attempted: \<open>register\<close> refuses an address whose id is
  set. This is the hypothesis \<open>distinct\<close> of the scheduling and settlement theorems.
\<close>

lemma registration_consistent_init: "registration_consistent init_reg_state"
  by (simp add: registration_consistent_def init_reg_state_def)

lemma register_consistent:
  assumes "register s user proof isOperator = Inr (s', evs)"
    and "registration_consistent s"
  shows "registration_consistent s'"
proof -
  from assms(1) have new: "info_id (registry s user) = 0"
    by (auto simp: register_def split: if_splits)
  have fresh: "user \<notin> set (allUsers s) \<union> set (allOperators s)"
    using assms(2) new unfolding registration_consistent_def by blast
  show ?thesis
  proof (cases isOperator)
    case True
    with assms(1) have s': "s' = s\<lparr>nextOpId := nextOpId s + 1,
        registry := (registry s)
          (user := \<lparr>info_id = nextOpId s, info_isOperator = True\<rparr>),
        allOperators := allOperators s @ [user]\<rparr>"
      by (auto simp: register_def bind_result_Inr_iff checked_add_def Let_def split: if_splits)
    show ?thesis
      using assms(2) fresh unfolding registration_consistent_def s' by auto
  next
    case False
    with assms(1) have s': "s' = s\<lparr>nextUserId := nextUserId s + 1,
        registry := (registry s)
          (user := \<lparr>info_id = nextUserId s, info_isOperator = False\<rparr>),
        allUsers := allUsers s @ [user]\<rparr>"
      by (auto simp: register_def bind_result_Inr_iff checked_add_def Let_def split: if_splits)
    show ?thesis
      using assms(2) fresh unfolding registration_consistent_def s' by auto
  qed
qed

lemma register_all_consistent:
  "registration_consistent s \<Longrightarrow> registration_consistent (register_all s regs)"
proof (induction regs arbitrary: s)
  case Nil
  then show ?case by simp
next
  case (Cons x regs)
  obtain user "proof" isOperator where x: "x = (user, proof, isOperator)" by (cases x) auto
  have "registration_consistent (commit s (register s user proof isOperator))"
  proof (cases "register s user proof isOperator")
    case (Inl e)
    then show ?thesis using Cons.prems by (simp add: commit_def)
  next
    case (Inr r)
    obtain s' evs where r: "r = (s', evs)" by (cases r) auto
    show ?thesis
      using register_consistent [OF Inr [unfolded r] Cons.prems] Inr r by (simp add: commit_def)
  qed
  then show ?case unfolding x by (simp add: Cons.IH)
qed

lemma registered_lists_distinct:
  "distinct (getAllUsers (register_all init_reg_state regs))
   \<and> distinct (getAllOperators (register_all init_reg_state regs))"
  using register_all_consistent [OF registration_consistent_init, of regs]
  by (simp add: registration_consistent_def getAllUsers_def getAllOperators_def)

end
